theory Spec2Isabelle
  imports Complex_Main "HOL-Library.Multiset" "HOL-Library.Sublist"
begin

section \<open>Python values, errors and the outside world\<close>

text \<open>
  The checkpoint is read with \<^verbatim>\<open>json.load\<close>, so the two progress collections
  of a resumed run hold whatever JSON value the file gave them. A Python object that
  can be met in \<^verbatim>\<open>completed_files\<close> or \<^verbatim>\<open>failed_files\<close> is therefore a JSON value.
  A dict is the list of its items in insertion order; a character of a HOL string
  stands for one character of a Python \<^verbatim>\<open>str\<close>.
\<close>

datatype json =
    JNull
  | JBool bool
  | JNum real
  | JStr string
  | JArr "json list"
  | JObj "(string \<times> json) list"

text \<open>The exceptions that the modelled statements can raise.\<close>

datatype error =
    JSONDecodeError
  | AttributeError
  | TypeError
  | ValueError
  | OSError
  | UnicodeDecodeError
  | ZeroDivisionError

text \<open>
  One entry of \<^verbatim>\<open>csv_data\<close>: the dict built in \<^verbatim>\<open>process_single_pdf\<close>, which always has
  exactly these six keys.
\<close>

record csv_record =
  filename :: string
  case_number :: string
  name :: string
  address :: string
  source_file :: string
  page_number :: nat

text \<open>A cell of the written table: \<^verbatim>\<open>csv.DictWriter\<close> writes \<^verbatim>\<open>str(value)\<close>.\<close>

datatype cell = CStr string | CInt nat

text \<open>
  What a file holds, by what reading it gives. Files are read as UTF-8 text, the
  encoding in which the table is written and of which the ASCII text of
  \<^verbatim>\<open>json.dump\<close> is a part. \<open>JsonDoc j\<close> is a text that is a JSON document and that
  \<^verbatim>\<open>json.load\<close> reads as \<open>j\<close>. \<open>CsvDoc rs\<close> is a table as \<^verbatim>\<open>save_csv_data\<close> writes it: the
  header line of the six declared field names, then the rows \<open>rs\<close>; such a text starts
  with \<^verbatim>\<open>filename,\<close> and is never a JSON document. \<open>Malformed\<close> is any other text that is
  not a JSON document, in particular what is left when a file has been opened with
  mode \<^verbatim>\<open>'w'\<close> (which truncates it) and the writing stopped between two characters.
  \<open>Undecodable\<close> is a content that is not UTF-8 text, in particular what is left when
  the writing stopped inside a character. Directories and permissions are left out:
  a path names a file that can be read, or nothing.
\<close>

datatype file_content =
    JsonDoc json
  | CsvDoc "cell list list"
  | Malformed
  | Undecodable

text \<open>
  The world a run acts on: the files, the number of \<^verbatim>\<open>time.time()\<close> calls made so
  far and the number of files opened for writing so far.
\<close>

record world =
  files :: "string \<rightharpoonup> file_content"
  ticks :: nat
  writes :: nat

text \<open>
  How an \<^verbatim>\<open>open(path, 'w')\<close> block ends: it completes, the open itself fails, or the
  file is opened (and truncated) and a later write fails, with the bytes that reached
  the file ending between two characters or inside one.
\<close>

datatype io_event = IoOk | OpenFails | WriteFails | WriteFailsInChar

text \<open>
  Everything the run does not decide itself: the core count, the clock, the fate of
  each write, the outcome of each worker call (\<open>None\<close> when the call raises; the
  tuple of \<^verbatim>\<open>process_single_pdf\<close> otherwise; the first argument is the position of the
  submission, so equal paths are processed independently), and the order in which
  the futures complete.
\<close>

record env =
  cpu_count :: int
  time_at :: "nat \<Rightarrow> real"
  io_at :: "nat \<Rightarrow> io_event"
  worker :: "nat \<Rightarrow> string \<Rightarrow> (bool \<times> nat \<times> string \<times> csv_record list) option"
  completion_order :: "nat list"

subsection \<open>The Python operations applied to the progress collections\<close>

text \<open>\<^verbatim>\<open>x in v\<close> for a string \<open>x\<close>.\<close>

fun py_contains :: "string \<Rightarrow> json \<Rightarrow> error + bool" where
  "py_contains x (JArr xs) = Inr (JStr x \<in> set xs)"
| "py_contains x (JStr s) = Inr (sublist x s)"
| "py_contains x (JObj kvs) = Inr (x \<in> fst ` set kvs)"
| "py_contains x v = Inl TypeError"

text \<open>\<^verbatim>\<open>len(v)\<close>.\<close>

fun py_len :: "json \<Rightarrow> error + nat" where
  "py_len (JArr xs) = Inr (length xs)"
| "py_len (JStr s) = Inr (length s)"
| "py_len (JObj kvs) = Inr (length (remdups (map fst kvs)))"
| "py_len v = Inl TypeError"

text \<open>\<^verbatim>\<open>v.append(x)\<close>: only a list has the method.\<close>

fun py_append :: "json \<Rightarrow> string \<Rightarrow> error + json" where
  "py_append (JArr xs) x = Inr (JArr (xs @ [JStr x]))"
| "py_append v x = Inl AttributeError"

text \<open>
  \<^verbatim>\<open>len(a + b)\<close>: the sum exists and has a length for two lists and for two strings
  only (two numbers add up to a number, which has no length).
\<close>

fun py_len_add :: "json \<Rightarrow> json \<Rightarrow> error + nat" where
  "py_len_add (JArr xs) (JArr ys) = Inr (length xs + length ys)"
| "py_len_add (JStr s) (JStr t) = Inr (length s + length t)"
| "py_len_add a b = Inl TypeError"

text \<open>\<^verbatim>\<open>d.get(key, default)\<close> on the items of a dict (a later item wins).\<close>

definition dict_get :: "(string \<times> json) list \<Rightarrow> string \<Rightarrow> json \<Rightarrow> json" where
  "dict_get kvs key dflt = (case map_of (rev kvs) key of None \<Rightarrow> dflt | Some v \<Rightarrow> v)"

text \<open>The elements of a list value (nothing for any other value).\<close>

fun list_of :: "json \<Rightarrow> json list" where
  "list_of (JArr xs) = xs"
| "list_of v = []"

section \<open>ProgressStore: \<^verbatim>\<open>save_progress\<close> and \<^verbatim>\<open>load_progress\<close>\<close>

text \<open>
  The block \<^verbatim>\<open>with open(path, 'w') as f: ...\<close>. The file is written in place: there
  is no temporary file and no rename in the source. The world after \<open>WriteFails\<close> is
  also the one a process killed in the middle of the writing leaves behind.
\<close>

fun wide_cell :: "cell \<Rightarrow> bool" where
  "wide_cell (CStr s) = list_ex (\<lambda>c. 128 \<le> (of_char c :: nat)) s"
| "wide_cell (CInt n) = False"

text \<open>
  Whether the bytes of a content can end inside a character: only a table can hold a
  character outside ASCII, which UTF-8 writes as several bytes; \<^verbatim>\<open>json.dump\<close> escapes
  every such character.
\<close>

fun splittable :: "file_content \<Rightarrow> bool" where
  "splittable (CsvDoc rows) = list_ex (list_ex wide_cell) rows"
| "splittable content = False"

definition write_file :: "env \<Rightarrow> string \<Rightarrow> file_content \<Rightarrow> world \<Rightarrow> (error + unit) \<times> world" where
  "write_file e path content w =
     (let w1 = w\<lparr>writes := Suc (writes w)\<rparr> in
      case io_at e (writes w) of
        OpenFails \<Rightarrow> (Inl OSError, w1)
      | WriteFails \<Rightarrow> (Inl OSError, w1\<lparr>files := (files w1)(path \<mapsto> Malformed)\<rparr>)
      | WriteFailsInChar \<Rightarrow>
          (Inl OSError,
           w1\<lparr>files := (files w1)(path \<mapsto> (if splittable content then Undecodable else Malformed))\<rparr>)
      | IoOk \<Rightarrow> (Inr (), w1\<lparr>files := (files w1)(path \<mapsto> content)\<rparr>))"

text \<open>The dict \<^verbatim>\<open>progress\<close> of \<^verbatim>\<open>save_progress\<close>.\<close>

definition progress_json :: "json \<Rightarrow> json \<Rightarrow> real \<Rightarrow> json" where
  "progress_json completed failed t =
     JObj [(''completed'', completed), (''failed'', failed), (''timestamp'', JNum t)]"

definition save_progress :: "env \<Rightarrow> json \<Rightarrow> json \<Rightarrow> string \<Rightarrow> world \<Rightarrow> (error + unit) \<times> world" where
  "save_progress e completed failed progress_file w =
     (let t = time_at e (ticks w);
          w1 = w\<lparr>ticks := Suc (ticks w)\<rparr>
      in write_file e progress_file (JsonDoc (progress_json completed failed t)) w1)"

definition load_progress :: "string \<Rightarrow> world \<Rightarrow> error + (json \<times> json)" where
  "load_progress progress_file w =
     (case files w progress_file of
        None \<Rightarrow> Inr (JArr [], JArr [])
      | Some (JsonDoc progress) \<Rightarrow>
          (case progress of
             JObj kvs \<Rightarrow> Inr (dict_get kvs ''completed'' (JArr []), dict_get kvs ''failed'' (JArr []))
           | _ \<Rightarrow> Inl AttributeError)
      | Some Undecodable \<Rightarrow> Inl UnicodeDecodeError
      | Some _ \<Rightarrow> Inl JSONDecodeError)"

section \<open>ResultAggregator: \<^verbatim>\<open>save_csv_data\<close>\<close>

definition fieldnames :: "string list" where
  "fieldnames = [''filename'', ''case_number'', ''name'', ''address'', ''source_file'', ''page_number'']"

text \<open>The row \<^verbatim>\<open>DictWriter\<close> writes for one dict: its values in the order of \<open>fieldnames\<close>.\<close>

definition row_of :: "csv_record \<Rightarrow> cell list" where
  "row_of r = [CStr (filename r), CStr (case_number r), CStr (name r), CStr (address r),
               CStr (source_file r), CInt (page_number r)]"

text \<open>The lines of a table: the header that \<^verbatim>\<open>writeheader\<close> writes, then the rows.\<close>

fun table_lines :: "file_content \<Rightarrow> cell list list" where
  "table_lines (CsvDoc rows) = map CStr fieldnames # rows"
| "table_lines content = []"

definition default_csv_filename :: string where
  "default_csv_filename = ''pdf_processing_results.csv''"

definition save_csv_data :: "env \<Rightarrow> csv_record list \<Rightarrow> string \<Rightarrow> world \<Rightarrow> (error + unit) \<times> world" where
  "save_csv_data e all_csv_data csv_filename w =
     (if all_csv_data = [] then (Inr (), w)
      else write_file e csv_filename (CsvDoc (map row_of all_csv_data)) w)"

section \<open>BatchCoordinator: \<^verbatim>\<open>process_pdfs_enterprise\<close>\<close>

text \<open>What \<^verbatim>\<open>future.result()\<close> gives: the tuple of \<^verbatim>\<open>process_pdf_worker\<close>, or an exception.\<close>

datatype future_result =
    Returned string bool nat string "csv_record list"
  | Raised

definition process_pdf_worker :: "env \<Rightarrow> nat \<Rightarrow> string \<Rightarrow> future_result" where
  "process_pdf_worker e i pdf_path =
     (case worker e i pdf_path of
        None \<Rightarrow> Raised
      | Some (success, pages, output_dir, csv_data) \<Rightarrow>
          Returned pdf_path success pages output_dir csv_data)"

text \<open>The local variables of \<^verbatim>\<open>process_pdfs_enterprise\<close>, and the world.\<close>

record frame =
  pdf_paths :: "string list"
  completed_files :: json
  failed_files :: json
  all_csv_data :: "csv_record list"
  total_pages :: nat
  start_time :: real
  future_to_pdf :: "(nat \<times> string) list"
  sys :: world

text \<open>
  The list comprehension of the resume branch:
  \<^verbatim>\<open>[f for f in pdf_paths if f not in completed_files and f not in failed_files]\<close>.
  The second test is evaluated only when the first holds.
\<close>

fun remaining_files :: "string list \<Rightarrow> json \<Rightarrow> json \<Rightarrow> error + string list" where
  "remaining_files [] completed failed = Inr []"
| "remaining_files (f # fs) completed failed =
     (case py_contains f completed of
        Inl err \<Rightarrow> Inl err
      | Inr True \<Rightarrow> remaining_files fs completed failed
      | Inr False \<Rightarrow>
          (case py_contains f failed of
             Inl err \<Rightarrow> Inl err
           | Inr in_failed \<Rightarrow>
               (case remaining_files fs completed failed of
                  Inl err \<Rightarrow> Inl err
                | Inr rest \<Rightarrow> Inr (if in_failed then rest else f # rest))))"

text \<open>
  \<^verbatim>\<open>as_completed\<close>: the futures in the order they finish. Any order can occur; the
  \<open>k\<close>-th number of the schedule selects, among the futures still pending, the one
  that finishes next (position 0 once the schedule is used up).
\<close>

function as_completed :: "nat list \<Rightarrow> 'a list \<Rightarrow> 'a list" where
  "as_completed sched [] = []"
| "as_completed sched (x # xs) =
     (let i = (case sched of [] \<Rightarrow> 0 | p # _ \<Rightarrow> p mod length (x # xs))
      in (x # xs) ! i # as_completed (tl sched) (take i (x # xs) @ drop (Suc i) (x # xs)))"
  by pat_completeness auto
termination
proof (relation "measure (\<lambda>(sched, pend). length pend)")
  show "wf (measure (\<lambda>(sched, pend). length pend))" by simp
next
  fix sched :: "nat list" and x :: 'a and xs :: "'a list" and i :: nat
  assume i: "i = (case sched of [] \<Rightarrow> 0 | p # _ \<Rightarrow> p mod length (x # xs))"
  have "i < length (x # xs)"
    unfolding i by (cases sched) simp_all
  then show "((tl sched, take i (x # xs) @ drop (Suc i) (x # xs)), (sched, x # xs))
               \<in> measure (\<lambda>(sched, pend). length pend)"
    by (simp add: min_def)
qed

text \<open>The \<^verbatim>\<open>except Exception\<close> branch of the loop body.\<close>

definition handler :: "string \<Rightarrow> frame \<Rightarrow> error option \<times> frame" where
  "handler pdf_path fr =
     (case py_append (failed_files fr) pdf_path of
        Inl err \<Rightarrow> (Some err, fr)
      | Inr failed \<Rightarrow> (None, fr\<lparr>failed_files := failed\<rparr>))"

text \<open>
  The first statements of the \<^verbatim>\<open>try\<close> block for a returned tuple: the branch on
  \<^verbatim>\<open>success\<close>.
\<close>

definition record_outcome :: "string \<Rightarrow> bool \<Rightarrow> nat \<Rightarrow> csv_record list \<Rightarrow> frame \<Rightarrow> error + frame" where
  "record_outcome pdf_path_result success pages csv_data fr =
     (if success then
        (case py_append (completed_files fr) pdf_path_result of
           Inl err \<Rightarrow> Inl err
         | Inr completed \<Rightarrow>
             Inr (fr\<lparr>completed_files := completed,
                     total_pages := total_pages fr + pages,
                     all_csv_data := all_csv_data fr @ csv_data\<rparr>))
      else
        (case py_append (failed_files fr) pdf_path_result of
           Inl err \<Rightarrow> Inl err
         | Inr failed \<Rightarrow> Inr (fr\<lparr>failed_files := failed\<rparr>)))"

text \<open>
  One iteration of \<^verbatim>\<open>for future in as_completed(future_to_pdf)\<close>. An exception raised
  anywhere in the \<^verbatim>\<open>try\<close> block, also by \<^verbatim>\<open>save_progress\<close>, reaches the handler with
  the assignments made before it in place. The result is the exception that leaves
  the loop body, if any.
\<close>

definition handle_future :: "env \<Rightarrow> string \<Rightarrow> string \<times> future_result \<Rightarrow> frame \<Rightarrow> error option \<times> frame" where
  "handle_future e progress_file fut fr =
     (case fut of (pdf_path, res) \<Rightarrow>
        (case res of
           Raised \<Rightarrow> handler pdf_path fr
         | Returned pdf_path_result success pages output_dir csv_data \<Rightarrow>
             (case record_outcome pdf_path_result success pages csv_data fr of
                Inl err \<Rightarrow> handler pdf_path fr
              | Inr fr1 \<Rightarrow>
                  (case py_len_add (completed_files fr1) (failed_files fr1) of
                     Inl err \<Rightarrow> handler pdf_path fr1
                   | Inr n \<Rightarrow>
                       if n mod 10 = 0 then
                         (case save_progress e (completed_files fr1) (failed_files fr1)
                                 progress_file (sys fr1) of
                            (Inl err, w) \<Rightarrow> handler pdf_path (fr1\<lparr>sys := w\<rparr>)
                          | (Inr u, w) \<Rightarrow> (None, fr1\<lparr>sys := w\<rparr>))
                       else (None, fr1)))))"

text \<open>The loop: it ends early only when an exception leaves the body.\<close>

fun drain :: "env \<Rightarrow> string \<Rightarrow> (string \<times> future_result) list \<Rightarrow> frame \<Rightarrow> error option \<times> frame" where
  "drain e progress_file [] fr = (None, fr)"
| "drain e progress_file (fut # futs) fr =
     (case handle_future e progress_file fut fr of
        (Some err, fr') \<Rightarrow> (Some err, fr')
      | (None, fr') \<Rightarrow> drain e progress_file futs fr')"

text \<open>The futures of a frame with their results, in completion order.\<close>

definition arrivals :: "env \<Rightarrow> (nat \<times> string) list \<Rightarrow> (string \<times> future_result) list" where
  "arrivals e futures =
     map (\<lambda>(i, pdf_path). (pdf_path, process_pdf_worker e i pdf_path))
       (as_completed (completion_order e) futures)"

text \<open>
  Lines 202 to 221: the defaults, the resume branch, the start time, the pool and the
  submissions. The two \<^verbatim>\<open>len\<close> calls are those of the \<^verbatim>\<open>print\<close> of the resume branch;
  \<^verbatim>\<open>ProcessPoolExecutor\<close> raises \<^verbatim>\<open>ValueError\<close> for a pool size below one (the upper
  bound that one platform adds is left out).
\<close>

definition initial_frame :: "string list \<Rightarrow> world \<Rightarrow> frame" where
  "initial_frame paths w =
     \<lparr>pdf_paths = paths, completed_files = JArr [], failed_files = JArr [],
      all_csv_data = [], total_pages = 0, start_time = 0, future_to_pdf = [], sys = w\<rparr>"

definition resume_from :: "string \<Rightarrow> frame \<Rightarrow> error + frame" where
  "resume_from progress_file fr =
     (case load_progress progress_file (sys fr) of
        Inl err \<Rightarrow> Inl err
      | Inr (completed, failed) \<Rightarrow>
          (case remaining_files (pdf_paths fr) completed failed of
             Inl err \<Rightarrow> Inl err
           | Inr remaining \<Rightarrow>
               (case py_len completed of
                  Inl err \<Rightarrow> Inl err
                | Inr n \<Rightarrow>
                    (case py_len failed of
                       Inl err \<Rightarrow> Inl err
                     | Inr m \<Rightarrow>
                         Inr (fr\<lparr>completed_files := completed, failed_files := failed,
                                 pdf_paths := remaining\<rparr>)))))"

definition submit_all :: "env \<Rightarrow> int option \<Rightarrow> frame \<Rightarrow> error option \<times> frame" where
  "submit_all e max_workers fr =
     (let workers = (case max_workers of None \<Rightarrow> min (cpu_count e) 8 | Some n \<Rightarrow> n);
          w = sys fr;
          fr1 = fr\<lparr>start_time := time_at e (ticks w), sys := w\<lparr>ticks := Suc (ticks w)\<rparr>\<rparr>
      in if workers \<le> 0 then (Some ValueError, fr1)
         else (None, fr1\<lparr>future_to_pdf := zip [0 ..< length (pdf_paths fr1)] (pdf_paths fr1)\<rparr>))"

text \<open>
  Lines 245 to 271: the table, the final checkpoint, the report and the result. The
  report divides by \<^verbatim>\<open>len(completed_files + failed_files)\<close> and by \<^verbatim>\<open>duration\<close>.
\<close>

definition finish :: "env \<Rightarrow> string \<Rightarrow> frame \<Rightarrow> (error + nat \<times> nat) \<times> frame" where
  "finish e progress_file fr =
     (case save_csv_data e (all_csv_data fr) default_csv_filename (sys fr) of
        (Inl err, w1) \<Rightarrow> (Inl err, fr\<lparr>sys := w1\<rparr>)
      | (Inr u, w1) \<Rightarrow>
          (case save_progress e (completed_files fr) (failed_files fr) progress_file w1 of
             (Inl err, w2) \<Rightarrow> (Inl err, fr\<lparr>sys := w2\<rparr>)
           | (Inr u, w2) \<Rightarrow>
               (let end_time = time_at e (ticks w2);
                    fr3 = fr\<lparr>sys := w2\<lparr>ticks := Suc (ticks w2)\<rparr>\<rparr>;
                    duration = end_time - start_time fr
                in case py_len_add (completed_files fr) (failed_files fr) of
                     Inl err \<Rightarrow> (Inl err, fr3)
                   | Inr n_all \<Rightarrow>
                       (case py_len (completed_files fr) of
                          Inl err \<Rightarrow> (Inl err, fr3)
                        | Inr succeeded \<Rightarrow>
                            (case py_len (failed_files fr) of
                               Inl err \<Rightarrow> (Inl err, fr3)
                             | Inr failed \<Rightarrow>
                                 if n_all = 0 then (Inl ZeroDivisionError, fr3)
                                 else if duration = 0 then (Inl ZeroDivisionError, fr3)
                                 else (Inr (succeeded, failed), fr3))))))"

text \<open>
  The frame with which the loop is entered, or the exception raised before it.
\<close>

definition loop_entry ::
  "env \<Rightarrow> string list \<Rightarrow> int option \<Rightarrow> bool \<Rightarrow> string \<Rightarrow> world \<Rightarrow> error option \<times> frame" where
  "loop_entry e paths max_workers resume progress_file w =
     (let fr0 = initial_frame paths w in
      case (if resume then resume_from progress_file fr0 else Inr fr0) of
        Inl err \<Rightarrow> (Some err, fr0)
      | Inr fr1 \<Rightarrow> submit_all e max_workers fr1)"

text \<open>
  The whole function. Besides the value returned or the exception raised, the model
  gives the local variables and the world as they are when the function is left.
\<close>

definition process_pdfs_enterprise_run ::
  "env \<Rightarrow> string list \<Rightarrow> int option \<Rightarrow> bool \<Rightarrow> string \<Rightarrow> world \<Rightarrow> (error + nat \<times> nat) \<times> frame" where
  "process_pdfs_enterprise_run e paths max_workers resume progress_file w =
     (case loop_entry e paths max_workers resume progress_file w of
        (Some err, fr) \<Rightarrow> (Inl err, fr)
      | (None, fr2) \<Rightarrow>
          (case drain e progress_file (arrivals e (future_to_pdf fr2)) fr2 of
             (Some err, fr3) \<Rightarrow> (Inl err, fr3)
           | (None, fr3) \<Rightarrow> finish e progress_file fr3))"

definition process_pdfs_enterprise ::
  "env \<Rightarrow> string list \<Rightarrow> int option \<Rightarrow> bool \<Rightarrow> string \<Rightarrow> world \<Rightarrow> error + nat \<times> nat" where
  "process_pdfs_enterprise e paths max_workers resume progress_file w =
     fst (process_pdfs_enterprise_run e paths max_workers resume progress_file w)"

section \<open>Observations used in the statements\<close>

text \<open>
  The local variables and the world at the moment the loop has handled the first \<open>k\<close>
  futures of a run (the frame with which the run stopped when it raised earlier).
\<close>

definition during_run ::
  "env \<Rightarrow> string list \<Rightarrow> int option \<Rightarrow> bool \<Rightarrow> string \<Rightarrow> world \<Rightarrow> nat \<Rightarrow> frame" where
  "during_run e paths max_workers resume progress_file w k =
     (case loop_entry e paths max_workers resume progress_file w of
        (Some err, fr) \<Rightarrow> fr
      | (None, fr2) \<Rightarrow> snd (drain e progress_file (take k (arrivals e (future_to_pdf fr2))) fr2))"

text \<open>
  The futures of a run with their results, in the order in which the loop handles
  them (none when the run raises before the loop).
\<close>

definition outcomes ::
  "env \<Rightarrow> string list \<Rightarrow> int option \<Rightarrow> bool \<Rightarrow> string \<Rightarrow> world \<Rightarrow> (string \<times> future_result) list" where
  "outcomes e paths max_workers resume progress_file w =
     (case loop_entry e paths max_workers resume progress_file w of
        (Some err, fr) \<Rightarrow> []
      | (None, fr2) \<Rightarrow> arrivals e (future_to_pdf fr2))"

text \<open>The progress collections a run starts from.\<close>

definition prior_progress :: "bool \<Rightarrow> string \<Rightarrow> world \<Rightarrow> error + (json \<times> json)" where
  "prior_progress resume progress_file w =
     (if resume then load_progress progress_file w else Inr (JArr [], JArr []))"

text \<open>The pool size a call asks for.\<close>

definition pool_size :: "env \<Rightarrow> int option \<Rightarrow> int" where
  "pool_size e max_workers = (case max_workers of None \<Rightarrow> min (cpu_count e) 8 | Some n \<Rightarrow> n)"

text \<open>A persisted content with the \<^verbatim>\<open>timestamp\<close> item of its JSON object left out.\<close>

definition without_timestamp :: "file_content \<Rightarrow> file_content" where
  "without_timestamp c =
     (case c of
        JsonDoc (JObj kvs) \<Rightarrow> JsonDoc (JObj (filter (\<lambda>kv. fst kv \<noteq> ''timestamp'') kvs))
      | _ \<Rightarrow> c)"

text \<open>The records a future contributes: those of a result with \<^verbatim>\<open>success\<close> set.\<close>

fun records_of :: "future_result \<Rightarrow> csv_record list" where
  "records_of (Returned pdf_path_result success pages output_dir csv_data) =
     (if success then csv_data else [])"
| "records_of Raised = []"

subsection \<open>Concrete inputs\<close>

definition world_empty :: world where
  "world_empty = \<lparr>files = Map.empty, ticks = 0, writes = 0\<rparr>"

definition world_with :: "string \<Rightarrow> file_content \<Rightarrow> world" where
  "world_with path content = \<lparr>files = [path \<mapsto> content], ticks = 0, writes = 0\<rparr>"

text \<open>
  The stem of a plain name \<^verbatim>\<open>stem.pdf\<close>: no directory part, no further dot and no NUL.
  For such a path \<^verbatim>\<open>Path(p).name\<close> is the path itself and the output directory of
  \<^verbatim>\<open>PDFProcessor\<close> is \<^verbatim>\<open>split pdfs stem\<close>.
\<close>

definition plain_stem :: "string \<Rightarrow> string option" where
  "plain_stem p =
     (let st = take (length p - 4) p in
      if 4 < length p \<and> drop (length p - 4) p = ''.pdf'' \<and>
         list_all (\<lambda>c. c \<noteq> CHR ''/'' \<and> c \<noteq> CHR ''.'' \<and> c \<noteq> CHR 0x00) st
      then Some st else None)"

text \<open>
  The record \<^verbatim>\<open>process_single_pdf\<close> makes for the page of a one-page document with the
  given base name (\<^verbatim>\<open>Path(...).name\<close>) that shows no appeal number, name or address.
  Then the tuple of \<^verbatim>\<open>process_single_pdf\<close> for such a document at a plain name, and the
  one for a document at a plain name that cannot be read.
\<close>

definition one_page :: "string \<Rightarrow> csv_record" where
  "one_page base_name =
     \<lparr>filename = ''Case_Number_UNKNOWN_Page_Num_1.pdf'', case_number = ''UNKNOWN'', name = [],
      address = [], source_file = base_name, page_number = 1\<rparr>"

definition one_page_ok :: "string \<Rightarrow> (bool \<times> nat \<times> string \<times> csv_record list) option" where
  "one_page_ok pdf_path =
     (case plain_stem pdf_path of
        None \<Rightarrow> None
      | Some st \<Rightarrow> Some (True, 1, ''split pdfs '' @ st, [one_page pdf_path]))"

definition unreadable :: "string \<Rightarrow> (bool \<times> nat \<times> string \<times> csv_record list) option" where
  "unreadable pdf_path =
     (case plain_stem pdf_path of
        None \<Rightarrow> None
      | Some st \<Rightarrow> Some (False, 0, ''split pdfs '' @ st, []))"

text \<open>
  Every worker call on a plain name succeeds with one page (the calls on other paths
  raise, as when the output directory cannot be made), every write completes, the
  clock advances.
\<close>

definition env_ok :: env where
  "env_ok = \<lparr>cpu_count = 4, time_at = (\<lambda>n. real n), io_at = (\<lambda>n. IoOk),
            worker = (\<lambda>i pdf_path. one_page_ok pdf_path),
            completion_order = []\<rparr>"

text \<open>As \<open>env_ok\<close>, but every write fails after the file has been opened.\<close>

definition env_torn :: env where
  "env_torn = env_ok\<lparr>io_at := (\<lambda>n. WriteFails)\<rparr>"

text \<open>As \<open>env_ok\<close>, but the second submission comes back with \<^verbatim>\<open>success = False\<close>.\<close>

definition env_second_fails :: env where
  "env_second_fails =
     env_ok\<lparr>worker := (\<lambda>i pdf_path. if i = 1 then unreadable pdf_path
                                    else one_page_ok pdf_path)\<rparr>"

text \<open>As \<open>env_ok\<close>, but the tenth submission raises.\<close>

definition env_tenth_raises :: env where
  "env_tenth_raises =
     env_ok\<lparr>worker := (\<lambda>i pdf_path. if i = 9 then None else one_page_ok pdf_path)\<rparr>"

text \<open>As \<open>env_ok\<close>, but the first file opened for writing cannot be opened.\<close>

definition env_first_open_fails :: env where
  "env_first_open_fails = env_ok\<lparr>io_at := (\<lambda>n. if n = 0 then OpenFails else IoOk)\<rparr>"

definition ten_paths :: "string list" where
  "ten_paths = [''p0.pdf'', ''p1.pdf'', ''p2.pdf'', ''p3.pdf'', ''p4.pdf'',
                ''p5.pdf'', ''p6.pdf'', ''p7.pdf'', ''p8.pdf'', ''p9.pdf'']"

definition five_done :: "json list" where
  "five_done = [JStr ''d0.pdf'', JStr ''d1.pdf'', JStr ''d2.pdf'', JStr ''d3.pdf'', JStr ''d4.pdf'']"

section \<open>Auxiliary facts\<close>

subsection \<open>Writing and loading\<close>

lemma write_file_ok_iff:
  "fst (write_file e path content w) = Inr () \<longleftrightarrow> io_at e (writes w) = IoOk"
  by (cases "io_at e (writes w)") (simp_all add: write_file_def)

lemma save_progress_ok_iff:
  "fst (save_progress e c f path w) = Inr () \<longleftrightarrow> io_at e (writes w) = IoOk"
  by (simp add: save_progress_def Let_def write_file_ok_iff)

lemma save_progress_ok:
  "io_at e (writes w) = IoOk \<Longrightarrow>
     save_progress e c f path w =
       (Inr (), w\<lparr>ticks := Suc (ticks w), writes := Suc (writes w),
                  files := (files w)(path \<mapsto> JsonDoc (progress_json c f (time_at e (ticks w))))\<rparr>)"
  by (simp add: save_progress_def Let_def write_file_def)

lemma load_progress_saved:
  "files w path = Some (JsonDoc (progress_json c f t)) \<Longrightarrow> load_progress path w = Inr (c, f)"
  by (simp add: load_progress_def progress_json_def dict_get_def)

subsection \<open>Completion order\<close>

lemma mset_as_completed: "mset (as_completed sched xs) = mset xs"
proof (induction sched xs rule: as_completed.induct)
  case (1 sched)
  show ?case by simp
next
  case (2 sched x xs)
  define i where "i = (case sched of [] \<Rightarrow> 0 | p # _ \<Rightarrow> p mod length (x # xs))"
  have i: "i < length (x # xs)"
    unfolding i_def by (cases sched) simp_all
  have "mset (x # xs) = mset (take i (x # xs) @ (x # xs) ! i # drop (Suc i) (x # xs))"
    using id_take_nth_drop [OF i] by simp
  also have "\<dots> = add_mset ((x # xs) ! i) (mset (take i (x # xs) @ drop (Suc i) (x # xs)))"
    by simp
  finally have split: "mset (x # xs)
      = add_mset ((x # xs) ! i) (mset (take i (x # xs) @ drop (Suc i) (x # xs)))" .
  have "as_completed sched (x # xs)
      = (x # xs) ! i # as_completed (tl sched) (take i (x # xs) @ drop (Suc i) (x # xs))"
    by (simp add: i_def Let_def)
  moreover have "mset (as_completed (tl sched) (take i (x # xs) @ drop (Suc i) (x # xs)))
      = mset (take i (x # xs) @ drop (Suc i) (x # xs))"
    using "2.IH" [of i] by (simp add: i_def)
  ultimately show ?case using split by simp
qed

lemma set_as_completed: "set (as_completed sched xs) = set xs"
  using mset_as_completed [of sched xs] by (metis set_mset_mset)

lemma length_as_completed: "length (as_completed sched xs) = length xs"
  using mset_as_completed [of sched xs] by (metis size_mset)

lemma map_fst_arrivals:
  "map fst (arrivals e futures) = map snd (as_completed (completion_order e) futures)"
  by (simp add: arrivals_def case_prod_unfold comp_def)

lemma mset_fst_arrivals: "mset (map fst (arrivals e futures)) = mset (map snd futures)"
proof -
  have "mset (map snd (as_completed (completion_order e) futures))
      = image_mset snd (mset (as_completed (completion_order e) futures))"
    by simp
  also have "\<dots> = image_mset snd (mset futures)"
    by (simp only: mset_as_completed)
  finally show ?thesis
    by (simp add: map_fst_arrivals)
qed

lemma length_arrivals: "length (arrivals e futures) = length futures"
  by (simp add: arrivals_def length_as_completed)

lemma arrivals_results:
  "x \<in> set (arrivals e futures) \<Longrightarrow>
     \<exists>i. (i, fst x) \<in> set futures \<and> snd x = process_pdf_worker e i (fst x)"
  by (auto simp: arrivals_def set_as_completed)

subsection \<open>One iteration, any frame\<close>

lemma handler_keeps:
  "handler p fr = (eo, fr') \<Longrightarrow>
     future_to_pdf fr' = future_to_pdf fr \<and> pdf_paths fr' = pdf_paths fr \<and>
     start_time fr' = start_time fr \<and> all_csv_data fr' = all_csv_data fr \<and>
     sys fr' = sys fr \<and> completed_files fr' = completed_files fr"
  by (auto simp: handler_def split: sum.splits)

lemma record_outcome_keeps:
  "record_outcome q s n csv fr = Inr fr1 \<Longrightarrow>
     future_to_pdf fr1 = future_to_pdf fr \<and> pdf_paths fr1 = pdf_paths fr \<and>
     start_time fr1 = start_time fr \<and> sys fr1 = sys fr \<and>
     all_csv_data fr1 = all_csv_data fr @ (if s then csv else [])"
  by (auto simp: record_outcome_def split: sum.splits if_splits)

lemma save_progress_files:
  "x \<noteq> path \<Longrightarrow> files (snd (save_progress e c f path w)) x = files w x"
  by (cases "io_at e (writes w)") (simp_all add: save_progress_def write_file_def Let_def)

lemma handle_future_keeps:
  assumes "handle_future e progress_file (p, r) fr = (eo, fr')"
  shows "future_to_pdf fr' = future_to_pdf fr \<and> pdf_paths fr' = pdf_paths fr \<and>
         start_time fr' = start_time fr \<and>
         (\<forall>x. x \<noteq> progress_file \<longrightarrow> files (sys fr') x = files (sys fr) x) \<and>
         set (all_csv_data fr') \<subseteq> set (all_csv_data fr) \<union> set (records_of r)"
proof (cases r)
  case Raised
  with assms show ?thesis
    by (auto simp: handle_future_def dest: handler_keeps)
next
  case (Returned q s n out csv)
  show ?thesis
  proof (cases "record_outcome q s n csv fr")
    case (Inl err)
    with assms Returned show ?thesis
      by (auto simp: handle_future_def dest: handler_keeps)
  next
    case (Inr fr1)
    note k1 = record_outcome_keeps [OF Inr]
    show ?thesis
    proof (cases "py_len_add (completed_files fr1) (failed_files fr1)")
      case (Inl err)
      with assms Returned \<open>record_outcome q s n csv fr = Inr fr1\<close> k1 show ?thesis
        by (auto simp: handle_future_def dest!: handler_keeps)
    next
      case len: (Inr m)
      show ?thesis
      proof (cases "m mod 10 = 0")
        case False
        with assms Returned \<open>record_outcome q s n csv fr = Inr fr1\<close> len k1 show ?thesis
          by (auto simp: handle_future_def)
      next
        case True
        obtain res w' where sp: "save_progress e (completed_files fr1) (failed_files fr1)
                                   progress_file (sys fr1) = (res, w')"
          by (cases "save_progress e (completed_files fr1) (failed_files fr1) progress_file (sys fr1)")
        have fw: "\<forall>x. x \<noteq> progress_file \<longrightarrow> files w' x = files (sys fr) x"
          using save_progress_files [of _ progress_file e "completed_files fr1" "failed_files fr1" "sys fr1"]
            sp k1 by simp
        show ?thesis
        proof (cases res)
          case (Inl err)
          with assms Returned \<open>record_outcome q s n csv fr = Inr fr1\<close> len True sp
          have "handler p (fr1\<lparr>sys := w'\<rparr>) = (eo, fr')"
            by (simp add: handle_future_def)
          from handler_keeps [OF this] k1 fw Returned show ?thesis by auto
        next
          case (Inr u)
          with assms Returned \<open>record_outcome q s n csv fr = Inr fr1\<close> len True sp
          have "fr' = fr1\<lparr>sys := w'\<rparr>"
            by (simp add: handle_future_def)
          with k1 fw Returned show ?thesis by auto
        qed
      qed
    qed
  qed
qed

lemma drain_keeps:
  "drain e progress_file xs fr = (eo, fr') \<Longrightarrow>
     future_to_pdf fr' = future_to_pdf fr \<and> pdf_paths fr' = pdf_paths fr \<and>
     start_time fr' = start_time fr \<and>
     (\<forall>x. x \<noteq> progress_file \<longrightarrow> files (sys fr') x = files (sys fr) x) \<and>
     set (all_csv_data fr') \<subseteq> set (all_csv_data fr) \<union> (\<Union>x \<in> set xs. set (records_of (snd x)))"
proof (induction xs arbitrary: fr)
  case Nil
  then show ?case by simp
next
  case (Cons x xs)
  obtain p r where x: "x = (p, r)" by (cases x)
  obtain eo1 fr1 where h: "handle_future e progress_file (p, r) fr = (eo1, fr1)"
    by (cases "handle_future e progress_file (p, r) fr")
  note k = handle_future_keeps [OF h]
  show ?case
  proof (cases eo1)
    case (Some err)
    with Cons.prems x h have "fr' = fr1" by simp
    with k x show ?thesis by auto
  next
    case None
    with Cons.prems x h have "drain e progress_file xs fr1 = (eo, fr')" by simp
    from Cons.IH [OF this] k x show ?thesis by auto
  qed
qed

lemma finish_keeps:
  "finish e progress_file fr = (res, fr') \<Longrightarrow>
     future_to_pdf fr' = future_to_pdf fr \<and> pdf_paths fr' = pdf_paths fr \<and>
     all_csv_data fr' = all_csv_data fr \<and> completed_files fr' = completed_files fr \<and>
     failed_files fr' = failed_files fr"
  by (auto simp: finish_def Let_def split: prod.splits sum.splits if_splits)

subsection \<open>Before the loop\<close>

lemma remaining_files_not_in:
  "remaining_files ps c f = Inr r \<Longrightarrow>
     \<forall>p \<in> set r. p \<in> set ps \<and> py_contains p c = Inr False \<and> py_contains p f = Inr False"
proof (induction ps arbitrary: r)
  case Nil
  then show ?case by simp
next
  case (Cons a ps)
  then show ?case
    by (auto split: sum.splits bool.splits if_splits)
qed

lemma remaining_files_lists:
  "remaining_files ps (JArr a) (JArr b)
     = Inr (filter (\<lambda>p. JStr p \<notin> set a \<and> JStr p \<notin> set b) ps)"
  by (induction ps) (simp_all split: bool.splits)

lemma submit_all_futures:
  "submit_all e max_workers fr = (eo, fr') \<Longrightarrow>
     (future_to_pdf fr' = future_to_pdf fr \<or>
      future_to_pdf fr' = zip [0 ..< length (pdf_paths fr)] (pdf_paths fr)) \<and>
     all_csv_data fr' = all_csv_data fr \<and> files (sys fr') = files (sys fr)"
  by (auto simp: submit_all_def Let_def split: if_splits)

lemma loop_entry_resume:
  assumes "load_progress progress_file w = Inr (c, f)"
    and "loop_entry e paths max_workers True progress_file w = (eo, fr)"
  shows "(\<forall>x \<in> set (future_to_pdf fr).
            snd x \<in> set paths \<and> py_contains (snd x) c = Inr False \<and>
            py_contains (snd x) f = Inr False) \<and>
         all_csv_data fr = [] \<and> files (sys fr) = files w"
proof (cases "resume_from progress_file (initial_frame paths w)")
  case (Inl err)
  with assms(2) show ?thesis
    by (auto simp: loop_entry_def initial_frame_def)
next
  case (Inr fr1)
  with assms(1) obtain r where r: "remaining_files paths c f = Inr r"
    and fr1: "fr1 = (initial_frame paths w)\<lparr>completed_files := c, failed_files := f, pdf_paths := r\<rparr>"
    by (auto simp: resume_from_def initial_frame_def split: sum.splits)
  from assms(2) Inr have sub: "submit_all e max_workers fr1 = (eo, fr)"
    by (simp add: loop_entry_def)
  from submit_all_futures [OF sub] fr1
  have fut: "future_to_pdf fr = [] \<or> future_to_pdf fr = zip [0 ..< length r] r"
    and rest: "all_csv_data fr = []" "files (sys fr) = files w"
    by (auto simp: initial_frame_def)
  have "snd x \<in> set r" if "x \<in> set (future_to_pdf fr)" for x
    using fut that by (cases x) (auto dest: set_zip_rightD)
  with remaining_files_not_in [OF r] rest show ?thesis by blast
qed

lemma loop_entry_lists:
  assumes "prior_progress resume progress_file w = Inr (JArr pc, JArr pf)"
    and "0 < pool_size e max_workers"
  shows "loop_entry e paths max_workers resume progress_file w =
           (None,
            \<lparr>pdf_paths = filter (\<lambda>p. JStr p \<notin> set pc \<and> JStr p \<notin> set pf) paths,
             completed_files = JArr pc, failed_files = JArr pf, all_csv_data = [],
             total_pages = 0, start_time = time_at e (ticks w),
             future_to_pdf =
               zip [0 ..< length (filter (\<lambda>p. JStr p \<notin> set pc \<and> JStr p \<notin> set pf) paths)]
                   (filter (\<lambda>p. JStr p \<notin> set pc \<and> JStr p \<notin> set pf) paths),
             sys = w\<lparr>ticks := Suc (ticks w)\<rparr>\<rparr>)"
proof (cases resume)
  case True
  with assms(1) have "load_progress progress_file w = Inr (JArr pc, JArr pf)"
    by (simp add: prior_progress_def)
  with True assms(2) show ?thesis
    by (simp add: loop_entry_def resume_from_def initial_frame_def remaining_files_lists
          submit_all_def pool_size_def Let_def)
next
  case False
  with assms(1) have "pc = []" "pf = []"
    by (simp_all add: prior_progress_def)
  with False assms(2) show ?thesis
    by (simp add: loop_entry_def initial_frame_def submit_all_def pool_size_def Let_def)
qed

lemma run_keeps:
  assumes "loop_entry e paths max_workers resume progress_file w = (eo, fr2)"
    and "process_pdfs_enterprise_run e paths max_workers resume progress_file w = (res, fr)"
  shows "future_to_pdf fr = future_to_pdf fr2 \<and>
         set (all_csv_data fr) \<subseteq> set (all_csv_data fr2) \<union>
            (\<Union>x \<in> set (arrivals e (future_to_pdf fr2)). set (records_of (snd x)))"
proof (cases eo)
  case (Some err)
  with assms show ?thesis by (simp add: process_pdfs_enterprise_run_def)
next
  case None
  obtain eo3 fr3 where d: "drain e progress_file (arrivals e (future_to_pdf fr2)) fr2 = (eo3, fr3)"
    by (cases "drain e progress_file (arrivals e (future_to_pdf fr2)) fr2")
  note k = drain_keeps [OF d]
  show ?thesis
  proof (cases eo3)
    case (Some err)
    with assms None d have "fr = fr3" by (simp add: process_pdfs_enterprise_run_def)
    with k show ?thesis by simp
  next
    case n3: None
    with assms None d have "finish e progress_file fr3 = (res, fr)"
      by (simp add: process_pdfs_enterprise_run_def)
    from finish_keeps [OF this] k show ?thesis by simp
  qed
qed

lemmas run_eval =
  process_pdfs_enterprise_run_def loop_entry_def resume_from_def load_progress_def
  progress_json_def dict_get_def initial_frame_def submit_all_def arrivals_def
  process_pdf_worker_def handle_future_def record_outcome_def handler_def finish_def
  save_csv_data_def save_progress_def write_file_def Let_def
  one_page_ok_def unreadable_def plain_stem_def

lemma finish_returns:
  assumes "finish e progress_file fr3 = (Inr nm, fr)"
    and "progress_file \<noteq> default_csv_filename"
  shows "files (sys fr) default_csv_filename =
           (if all_csv_data fr3 = [] then files (sys fr3) default_csv_filename
            else Some (CsvDoc (map row_of (all_csv_data fr3))))"
proof -
  obtain r1 w1 where csv: "save_csv_data e (all_csv_data fr3) default_csv_filename (sys fr3) = (r1, w1)"
    by (cases "save_csv_data e (all_csv_data fr3) default_csv_filename (sys fr3)")
  with assms(1) have r1: "r1 = Inr ()"
    by (cases r1) (simp_all add: finish_def)
  obtain r2 w2 where sp: "save_progress e (completed_files fr3) (failed_files fr3) progress_file w1 = (r2, w2)"
    by (cases "save_progress e (completed_files fr3) (failed_files fr3) progress_file w1")
  with assms(1) csv r1 have r2: "r2 = Inr ()"
    by (cases r2) (simp_all add: finish_def)
  from assms(1) csv r1 sp r2 have "sys fr = w2\<lparr>ticks := Suc (ticks w2)\<rparr>"
    by (auto simp: finish_def Let_def split: sum.splits if_splits)
  then have "files (sys fr) default_csv_filename = files w2 default_csv_filename" by simp
  also have "\<dots> = files w1 default_csv_filename"
    using save_progress_files [of default_csv_filename progress_file e "completed_files fr3"
             "failed_files fr3" w1] sp assms(2) by simp
  also have "\<dots> = (if all_csv_data fr3 = [] then files (sys fr3) default_csv_filename
            else Some (CsvDoc (map row_of (all_csv_data fr3))))"
  proof (cases "all_csv_data fr3 = []")
    case True
    with csv show ?thesis by (simp add: save_csv_data_def)
  next
    case False
    from csv r1 have "fst (write_file e default_csv_filename
              (CsvDoc (map row_of (all_csv_data fr3))) (sys fr3)) = Inr ()"
      using False by (simp add: save_csv_data_def)
    then have "io_at e (writes (sys fr3)) = IoOk" by (simp add: write_file_ok_iff)
    with csv False show ?thesis
      by (auto simp: save_csv_data_def write_file_def)
  qed
  finally show ?thesis .
qed

subsection \<open>One iteration on two lists\<close>

lemma handle_future_lists:
  assumes "completed_files fr = JArr C" and "failed_files fr = JArr F"
    and "\<forall>q s n out csv. r = Returned q s n out csv \<longrightarrow> q = p"
  shows "\<exists>fr' C' F'. handle_future e progress_file (p, r) fr = (None, fr') \<and>
           completed_files fr' = JArr C' \<and> failed_files fr' = JArr F' \<and>
           set C' \<union> set F' = insert (JStr p) (set C \<union> set F)"
proof (cases r)
  case Raised
  with assms show ?thesis
    by (simp add: handle_future_def handler_def)
next
  case (Returned q s n out csv)
  with assms(3) have q: "q = p" by simp
  show ?thesis
  proof (cases "io_at e (writes (sys fr))")
    case IoOk
    with assms(1,2) Returned q show ?thesis
      by (cases s) (auto simp: handle_future_def record_outcome_def handler_def
                      save_progress_def write_file_def Let_def)
  next
    case OpenFails
    with assms(1,2) Returned q show ?thesis
      by (cases s) (auto simp: handle_future_def record_outcome_def handler_def
                      save_progress_def write_file_def Let_def)
  next
    case WriteFails
    with assms(1,2) Returned q show ?thesis
      by (cases s) (auto simp: handle_future_def record_outcome_def handler_def
                      save_progress_def write_file_def Let_def)
  next
    case WriteFailsInChar
    with assms(1,2) Returned q show ?thesis
      by (cases s) (auto simp: handle_future_def record_outcome_def handler_def
                      save_progress_def write_file_def Let_def)
  qed
qed

lemma handle_future_lists_ok:
  assumes "completed_files fr = JArr C" and "failed_files fr = JArr F"
    and "\<forall>q s n out csv. r = Returned q s n out csv \<longrightarrow> q = p"
    and "io_at e (writes (sys fr)) = IoOk"
  shows "\<exists>fr' C' F'. handle_future e progress_file (p, r) fr = (None, fr') \<and>
           completed_files fr' = JArr C' \<and> failed_files fr' = JArr F' \<and>
           mset (C' @ F') = add_mset (JStr p) (mset (C @ F)) \<and>
           (r = Raised \<or> (length C' + length F') mod 10 \<noteq> 0 \<longrightarrow> sys fr' = sys fr) \<and>
           (r \<noteq> Raised \<and> (length C' + length F') mod 10 = 0 \<longrightarrow>
              load_progress progress_file (sys fr') = Inr (JArr C', JArr F') \<and>
              writes (sys fr') = Suc (writes (sys fr)))"
proof (cases r)
  case Raised
  with assms show ?thesis
    by (simp add: handle_future_def handler_def)
next
  case (Returned q s n out csv)
  with assms(3) have q: "q = p" by simp
  show ?thesis
  proof (cases s)
    case True
    with assms(1,2,4) Returned q show ?thesis
      by (simp add: handle_future_def record_outcome_def save_progress_ok load_progress_saved)
  next
    case False
    with assms(1,2,4) Returned q show ?thesis
      by (simp add: handle_future_def record_outcome_def save_progress_ok load_progress_saved)
  qed
qed

subsection \<open>The loop on two lists\<close>

lemma drain_append:
  "drain e progress_file (xs @ ys) fr =
     (case drain e progress_file xs fr of
        (Some err, fr') \<Rightarrow> (Some err, fr')
      | (None, fr') \<Rightarrow> drain e progress_file ys fr')"
  by (induction xs arbitrary: fr) (auto split: prod.splits option.splits)

lemma drain_lists:
  assumes "completed_files fr = JArr C" and "failed_files fr = JArr F"
    and "\<forall>x \<in> set xs. \<forall>q s n out csv. snd x = Returned q s n out csv \<longrightarrow> q = fst x"
  shows "\<exists>fr' C' F'. drain e progress_file xs fr = (None, fr') \<and>
           completed_files fr' = JArr C' \<and> failed_files fr' = JArr F' \<and>
           set C' \<union> set F' = JStr ` fst ` set xs \<union> (set C \<union> set F)"
  using assms
proof (induction xs arbitrary: fr C F)
  case Nil
  then show ?case by simp
next
  case (Cons x xs)
  obtain p r where x: "x = (p, r)" by (cases x)
  from Cons.prems(3) x have coh: "\<forall>q s n out csv. r = Returned q s n out csv \<longrightarrow> q = p"
    by simp
  from handle_future_lists [OF Cons.prems(1,2) coh, of e progress_file]
  obtain fr1 C1 F1 where h: "handle_future e progress_file (p, r) fr = (None, fr1)"
    and c1: "completed_files fr1 = JArr C1" and f1: "failed_files fr1 = JArr F1"
    and s1: "set C1 \<union> set F1 = insert (JStr p) (set C \<union> set F)"
    by blast
  from Cons.prems(3) have rest: "\<forall>x \<in> set xs. \<forall>q s n out csv. snd x = Returned q s n out csv \<longrightarrow> q = fst x"
    by simp
  from Cons.IH [OF c1 f1 rest]
  obtain fr' C' F' where d: "drain e progress_file xs fr1 = (None, fr')"
    and c': "completed_files fr' = JArr C'" and f': "failed_files fr' = JArr F'"
    and s': "set C' \<union> set F' = JStr ` fst ` set xs \<union> (set C1 \<union> set F1)"
    by blast
  from h d x have "drain e progress_file (x # xs) fr = (None, fr')" by simp
  moreover from s' s1 x have "set C' \<union> set F' = JStr ` fst ` set (x # xs) \<union> (set C \<union> set F)"
    by auto
  ultimately show ?case using c' f' by blast
qed

lemma coherent_arrivals:
  "\<forall>x \<in> set (arrivals e futures).
     \<forall>q s n out csv. snd x = Returned q s n out csv \<longrightarrow> q = fst x"
  by (auto simp: arrivals_def process_pdf_worker_def split: option.splits)

lemma loop_entry_bad_pool:
  "pool_size e max_workers \<le> 0 \<Longrightarrow>
     fst (loop_entry e paths max_workers resume progress_file w) \<noteq> None"
  by (auto simp: loop_entry_def submit_all_def pool_size_def Let_def split: sum.splits)

lemma finish_lists:
  assumes "completed_files fr3 = JArr C" and "failed_files fr3 = JArr F"
    and "finish e progress_file fr3 = (Inr (n, m), fr)"
  shows "n = length C \<and> m = length F \<and>
         load_progress progress_file (sys fr) = Inr (JArr C, JArr F)"
proof -
  obtain r1 w1 where csv: "save_csv_data e (all_csv_data fr3) default_csv_filename (sys fr3) = (r1, w1)"
    by (cases "save_csv_data e (all_csv_data fr3) default_csv_filename (sys fr3)")
  with assms(3) have r1: "r1 = Inr ()"
    by (cases r1) (simp_all add: finish_def)
  obtain r2 w2 where sp: "save_progress e (JArr C) (JArr F) progress_file w1 = (r2, w2)"
    by (cases "save_progress e (JArr C) (JArr F) progress_file w1")
  with assms csv r1 have r2: "r2 = Inr ()"
    by (cases r2) (simp_all add: finish_def)
  from sp r2 have "io_at e (writes w1) = IoOk"
    using save_progress_ok_iff [of e "JArr C" "JArr F" progress_file w1] by simp
  from save_progress_ok [OF this, of "JArr C" "JArr F" progress_file] sp
  have w2: "files w2 progress_file
              = Some (JsonDoc (progress_json (JArr C) (JArr F) (time_at e (ticks w1))))"
    by auto
  from assms csv r1 sp r2 have "sys fr = w2\<lparr>ticks := Suc (ticks w2)\<rparr>" and "n = length C" and "m = length F"
    by (auto simp: finish_def Let_def split: if_splits)
  with w2 show ?thesis
    by (simp add: load_progress_saved)
qed

lemma drain_lists_ok:
  assumes "completed_files fr = JArr C" and "failed_files fr = JArr F"
    and "\<forall>x \<in> set xs. \<forall>q s n out csv. snd x = Returned q s n out csv \<longrightarrow> q = fst x"
    and "\<forall>n. io_at e n = IoOk"
  shows "\<exists>fr' C' F'. drain e progress_file xs fr = (None, fr') \<and>
           completed_files fr' = JArr C' \<and> failed_files fr' = JArr F' \<and>
           mset (C' @ F') = mset (map (\<lambda>x. JStr (fst x)) xs) + mset (C @ F)"
  using assms(1,2,3)
proof (induction xs arbitrary: fr C F)
  case Nil
  then show ?case by simp
next
  case (Cons x xs)
  obtain p r where x: "x = (p, r)" by (cases x)
  from Cons.prems(3) x have coh: "\<forall>q s n out csv. r = Returned q s n out csv \<longrightarrow> q = p"
    by simp
  from assms(4) have io: "io_at e (writes (sys fr)) = IoOk" by simp
  from handle_future_lists_ok [OF Cons.prems(1,2) coh io, of progress_file]
  obtain fr1 C1 F1 where h: "handle_future e progress_file (p, r) fr = (None, fr1)"
    and c1: "completed_files fr1 = JArr C1" and f1: "failed_files fr1 = JArr F1"
    and m1: "mset (C1 @ F1) = add_mset (JStr p) (mset (C @ F))"
    by blast
  from Cons.prems(3) have rest: "\<forall>x \<in> set xs. \<forall>q s n out csv. snd x = Returned q s n out csv \<longrightarrow> q = fst x"
    by simp
  from Cons.IH [OF c1 f1 rest]
  obtain fr' C' F' where d: "drain e progress_file xs fr1 = (None, fr')"
    and c': "completed_files fr' = JArr C'" and f': "failed_files fr' = JArr F'"
    and m': "mset (C' @ F') = mset (map (\<lambda>x. JStr (fst x)) xs) + mset (C1 @ F1)"
    by blast
  from h d x have "drain e progress_file (x # xs) fr = (None, fr')" by simp
  moreover from m' m1 x
  have "mset (C' @ F') = mset (map (\<lambda>x. JStr (fst x)) (x # xs)) + mset (C @ F)"
    by simp
  ultimately show ?case using c' f' by blast
qed

lemma distinct_new_ids:
  assumes "distinct paths" and "distinct (pc @ pf)"
    and "mset (map fst xs) = mset (filter (\<lambda>p. JStr p \<notin> set pc \<and> JStr p \<notin> set pf) paths)"
  shows "distinct (map (\<lambda>x. JStr (fst x)) (take k xs) @ pc @ pf)"
proof -
  let ?rem = "filter (\<lambda>p. JStr p \<notin> set pc \<and> JStr p \<notin> set pf) paths"
  from assms(1) have "distinct ?rem" by simp
  with mset_eq_imp_distinct_iff [OF assms(3)] have dx: "distinct (map fst xs)"
    by (simp only:)
  then have "distinct (take k (map fst xs))" by (rule distinct_take)
  then have "distinct (map JStr (take k (map fst xs)))"
    by (simp add: distinct_map inj_on_def)
  then have d1: "distinct (map (\<lambda>x. JStr (fst x)) (take k xs))"
    by (simp add: take_map comp_def)
  from assms(3) have "set (map fst xs) = set ?rem" by (rule mset_eq_setD)
  then have "fst ` set xs \<subseteq> {p. JStr p \<notin> set pc \<and> JStr p \<notin> set pf}"
    by auto
  then have d2: "set (map (\<lambda>x. JStr (fst x)) (take k xs)) \<inter> set (pc @ pf) = {}"
    by (auto dest!: in_set_takeD)
  from d1 d2 assms(2) show ?thesis
    by (simp only: distinct_append [of "map (\<lambda>x. JStr (fst x)) (take k xs)"] simp_thms)
qed

lemma during_run_lists_ok:
  assumes "prior_progress resume progress_file w = Inr (JArr pc, JArr pf)"
    and "\<forall>n. io_at e n = IoOk"
    and "0 < pool_size e max_workers"
  shows "\<exists>(xs :: (string \<times> future_result) list) C F.
           mset (map fst xs) = mset (filter (\<lambda>p. JStr p \<notin> set pc \<and> JStr p \<notin> set pf) paths) \<and>
           completed_files (during_run e paths max_workers resume progress_file w k) = JArr C \<and>
           failed_files (during_run e paths max_workers resume progress_file w k) = JArr F \<and>
           mset (C @ F) = mset (map (\<lambda>x. JStr (fst x)) (take k xs) @ pc @ pf)"
proof -
  let ?rem = "filter (\<lambda>p. JStr p \<notin> set pc \<and> JStr p \<notin> set pf) paths"
  obtain fr2 where le: "loop_entry e paths max_workers resume progress_file w = (None, fr2)"
    and c2: "completed_files fr2 = JArr pc" and f2: "failed_files fr2 = JArr pf"
    and fut: "future_to_pdf fr2 = zip [0 ..< length ?rem] ?rem"
    using loop_entry_lists [OF assms(1,3), of paths] by simp
  let ?xs = "arrivals e (future_to_pdf fr2)"
  have coh: "\<forall>x \<in> set (take k ?xs).
     \<forall>q s n out csv. snd x = Returned q s n out csv \<longrightarrow> q = fst x"
  proof
    fix x assume "x \<in> set (take k ?xs)"
    then have "x \<in> set ?xs" by (rule in_set_takeD)
    with coherent_arrivals [of e "future_to_pdf fr2"]
    show "\<forall>q s n out csv. snd x = Returned q s n out csv \<longrightarrow> q = fst x"
      by blast
  qed
  from drain_lists_ok [OF c2 f2 coh assms(2), of progress_file]
  obtain fr' C F where d: "drain e progress_file (take k ?xs) fr2 = (None, fr')"
    and c: "completed_files fr' = JArr C" and f: "failed_files fr' = JArr F"
    and m: "mset (C @ F) = mset (map (\<lambda>x. JStr (fst x)) (take k ?xs)) + mset (pc @ pf)"
    by blast
  from le d have "during_run e paths max_workers resume progress_file w k = fr'"
    by (simp add: during_run_def)
  moreover have "mset (map fst ?xs) = mset ?rem"
    using mset_fst_arrivals [of e "future_to_pdf fr2"] by (simp add: fut map_snd_zip)
  ultimately show ?thesis using c f m
    by (intro exI [of _ ?xs] exI [of _ C] exI [of _ F]) simp
qed

lemma run_ends_as_loop:
  assumes "prior_progress resume progress_file w = Inr (JArr pc, JArr pf)"
    and "\<forall>n. io_at e n = IoOk"
    and "0 < pool_size e max_workers"
  shows "completed_files (snd (process_pdfs_enterprise_run e paths max_workers resume progress_file w))
             = completed_files (during_run e paths max_workers resume progress_file w
                 (length (filter (\<lambda>p. JStr p \<notin> set pc \<and> JStr p \<notin> set pf) paths))) \<and>
         failed_files (snd (process_pdfs_enterprise_run e paths max_workers resume progress_file w))
             = failed_files (during_run e paths max_workers resume progress_file w
                 (length (filter (\<lambda>p. JStr p \<notin> set pc \<and> JStr p \<notin> set pf) paths)))"
proof -
  let ?rem = "filter (\<lambda>p. JStr p \<notin> set pc \<and> JStr p \<notin> set pf) paths"
  obtain fr2 where le: "loop_entry e paths max_workers resume progress_file w = (None, fr2)"
    and c2: "completed_files fr2 = JArr pc" and f2: "failed_files fr2 = JArr pf"
    and fut: "future_to_pdf fr2 = zip [0 ..< length ?rem] ?rem"
    using loop_entry_lists [OF assms(1,3), of paths] by simp
  let ?xs = "arrivals e (future_to_pdf fr2)"
  have len: "length ?xs = length ?rem"
    by (simp add: length_arrivals fut)
  have coh: "\<forall>x \<in> set ?xs. \<forall>q s n out csv. snd x = Returned q s n out csv \<longrightarrow> q = fst x"
    by (rule coherent_arrivals)
  from drain_lists_ok [OF c2 f2 coh assms(2), of progress_file]
  obtain fr3 where d: "drain e progress_file ?xs fr2 = (None, fr3)"
    by blast
  obtain res fr where fin: "finish e progress_file fr3 = (res, fr)"
    by (cases "finish e progress_file fr3")
  from le d fin have run: "process_pdfs_enterprise_run e paths max_workers resume progress_file w = (res, fr)"
    by (simp add: process_pdfs_enterprise_run_def)
  from le d len have "during_run e paths max_workers resume progress_file w (length ?rem) = fr3"
    by (simp add: during_run_def)
  with finish_keeps [OF fin] run show ?thesis by simp
qed

lemma drain_single:
  "drain e progress_file [x] fr = handle_future e progress_file x fr"
  by (simp split: prod.splits option.splits)

lemma drain_cadence:
  assumes c0: "completed_files fr0 = JArr C0" and f0: "failed_files fr0 = JArr F0"
    and coh: "\<forall>x \<in> set xs. \<forall>q s n out csv. snd x = Returned q s n out csv \<longrightarrow> q = fst x"
    and ret: "\<forall>x \<in> set xs. snd x \<noteq> Raised"
    and io: "\<forall>n. io_at e n = IoOk"
    and k: "k \<le> length xs"
  shows "\<exists>C F. drain e progress_file (take k xs) fr0
                 = (None, snd (drain e progress_file (take k xs) fr0)) \<and>
           completed_files (snd (drain e progress_file (take k xs) fr0)) = JArr C \<and>
           failed_files (snd (drain e progress_file (take k xs) fr0)) = JArr F \<and>
           length C + length F = length C0 + length F0 + k \<and>
           (if (length C0 + length F0 + k) mod 10 < k
            then load_progress progress_file (sys (snd (drain e progress_file (take k xs) fr0)))
                 = Inr (completed_files (snd (drain e progress_file
                          (take (k - (length C0 + length F0 + k) mod 10) xs) fr0)),
                        failed_files (snd (drain e progress_file
                          (take (k - (length C0 + length F0 + k) mod 10) xs) fr0)))
            else sys (snd (drain e progress_file (take k xs) fr0)) = sys fr0)"
  using k
proof (induction k)
  case 0
  with c0 f0 show ?case by simp
next
  case (Suc k)
  define S where "S j = snd (drain e progress_file (take j xs) fr0)" for j
  define n0 where "n0 = length C0 + length F0"
  from Suc.prems have klt: "k < length xs" by simp
  from Suc.IH klt obtain C F where dk: "drain e progress_file (take k xs) fr0 = (None, S k)"
    and ck: "completed_files (S k) = JArr C" and fk: "failed_files (S k) = JArr F"
    and lk: "length C + length F = n0 + k"
    and disk: "if (n0 + k) mod 10 < k
               then load_progress progress_file (sys (S k))
                    = Inr (completed_files (S (k - (n0 + k) mod 10)),
                           failed_files (S (k - (n0 + k) mod 10)))
               else sys (S k) = sys fr0"
    unfolding S_def n0_def by auto
  obtain p r where x: "xs ! k = (p, r)" by (cases "xs ! k")
  from klt have mem: "xs ! k \<in> set xs" by simp
  with coh x have coh1: "\<forall>q s n out csv. r = Returned q s n out csv \<longrightarrow> q = p"
    by fastforce
  from mem ret x have nr: "r \<noteq> Raised" by fastforce
  from io have io1: "io_at e (writes (sys (S k))) = IoOk" by simp
  from handle_future_lists_ok [OF ck fk coh1 io1, of progress_file] nr
  obtain fr' C' F' where h: "handle_future e progress_file (p, r) (S k) = (None, fr')"
    and c': "completed_files fr' = JArr C'" and f': "failed_files fr' = JArr F'"
    and m': "mset (C' @ F') = add_mset (JStr p) (mset (C @ F))"
    and same: "(length C' + length F') mod 10 \<noteq> 0 \<longrightarrow> sys fr' = sys (S k)"
    and saved: "(length C' + length F') mod 10 = 0 \<longrightarrow>
                  load_progress progress_file (sys fr') = Inr (JArr C', JArr F')"
    by blast
  from m' have "size (mset (C' @ F')) = Suc (size (mset (C @ F)))" by simp
  with lk have l': "length C' + length F' = n0 + Suc k" by simp
  have "take (Suc k) xs = take k xs @ [xs ! k]"
    using klt by (rule take_Suc_conv_app_nth)
  then have "drain e progress_file (take (Suc k) xs) fr0 = handle_future e progress_file (p, r) (S k)"
    by (simp only: drain_append dk x drain_single) simp
  with h have dS: "drain e progress_file (take (Suc k) xs) fr0 = (None, fr')" by simp
  then have S': "S (Suc k) = fr'" by (simp add: S_def)
  have goal: "if (n0 + Suc k) mod 10 < Suc k
        then load_progress progress_file (sys (S (Suc k)))
             = Inr (completed_files (S (Suc k - (n0 + Suc k) mod 10)),
                    failed_files (S (Suc k - (n0 + Suc k) mod 10)))
        else sys (S (Suc k)) = sys fr0"
  proof (cases "(n0 + Suc k) mod 10 = 0")
    case True
    with saved l' have "load_progress progress_file (sys fr') = Inr (JArr C', JArr F')" by simp
    with True S' c' f' show ?thesis by simp
  next
    case False
    with same l' have w: "sys fr' = sys (S k)" by simp
    from False have d: "(n0 + Suc k) mod 10 = Suc ((n0 + k) mod 10)"
      by (simp add: mod_Suc split: if_splits)
    show ?thesis
    proof (cases "(n0 + k) mod 10 < k")
      case True
      with disk have "load_progress progress_file (sys (S k))
                    = Inr (completed_files (S (k - (n0 + k) mod 10)),
                           failed_files (S (k - (n0 + k) mod 10)))" by simp
      with True d w S' show ?thesis by simp
    next
      case False
      with disk have "sys (S k) = sys fr0" by simp
      with False d w S' show ?thesis by simp
    qed
  qed
  from dS S' c' f' l' goal show ?case
    unfolding S_def n0_def by auto
qed

lemma finish_saves:
  assumes "completed_files fr3 = JArr C" and "failed_files fr3 = JArr F"
    and "\<forall>n. io_at e n = IoOk"
  shows "load_progress progress_file (sys (snd (finish e progress_file fr3))) = Inr (JArr C, JArr F)"
  using assms
  by (simp add: finish_def save_csv_data_def write_file_def save_progress_def Let_def
        load_progress_def progress_json_def dict_get_def)

lemmas during_eval =
  during_run_def loop_entry_def resume_from_def load_progress_def
  progress_json_def dict_get_def initial_frame_def submit_all_def arrivals_def
  process_pdf_worker_def handle_future_def record_outcome_def handler_def
  save_progress_def write_file_def Let_def
  one_page_ok_def unreadable_def plain_stem_def

lemma drain_take_Suc:
  assumes "fst (drain e progress_file (take j xs) fr) = None" and "j < length xs"
  shows "drain e progress_file (take (Suc j) xs) fr
           = handle_future e progress_file (xs ! j) (snd (drain e progress_file (take j xs) fr))"
proof -
  obtain fr' where d: "drain e progress_file (take j xs) fr = (None, fr')"
    using assms(1) by (cases "drain e progress_file (take j xs) fr") simp
  have "take (Suc j) xs = take j xs @ [xs ! j]"
    using assms(2) by (rule take_Suc_conv_app_nth)
  then show ?thesis
    by (simp add: drain_append d drain_single del: drain.simps)
qed

lemma outcomes_lists:
  assumes "prior_progress resume progress_file w = Inr (JArr pc, JArr pf)"
    and "0 < pool_size e max_workers"
  shows "\<exists>fr2. loop_entry e paths max_workers resume progress_file w = (None, fr2) \<and>
           completed_files fr2 = JArr pc \<and> failed_files fr2 = JArr pf \<and>
           files (sys fr2) = files w \<and>
           outcomes e paths max_workers resume progress_file w = arrivals e (future_to_pdf fr2) \<and>
           length (outcomes e paths max_workers resume progress_file w)
             = length (filter (\<lambda>p. JStr p \<notin> set pc \<and> JStr p \<notin> set pf) paths) \<and>
           (\<forall>k. during_run e paths max_workers resume progress_file w k
                  = snd (drain e progress_file
                           (take k (outcomes e paths max_workers resume progress_file w)) fr2))"
  using loop_entry_lists [OF assms, of paths]
  by (simp add: outcomes_def during_run_def length_arrivals)

lemmas outcomes_eval =
  outcomes_def loop_entry_def resume_from_def load_progress_def
  progress_json_def dict_get_def initial_frame_def submit_all_def arrivals_def
  process_pdf_worker_def Let_def one_page_ok_def unreadable_def plain_stem_def

section \<open>The claims\<close>

subsection \<open>C1\<close>

text \<open>
  C1 (as the code has it). When a call returns, the two collections are lists whose
  elements are exactly the input ids together with the ids the run started from (those
  of the loaded checkpoint when resuming, none otherwise): no input id is dropped.
  The returned counts are the lengths of the two lists, and the checkpoint on disk
  holds the two lists.
\<close>

theorem terminal_ids_cover_input:
  assumes "prior_progress resume progress_file w = Inr (JArr pc, JArr pf)"
    and "process_pdfs_enterprise_run e paths max_workers resume progress_file w = (Inr (n, m), fr)"
  shows "\<exists>C F. completed_files fr = JArr C \<and> failed_files fr = JArr F \<and>
           set C \<union> set F = JStr ` set paths \<union> (set pc \<union> set pf) \<and>
           (\<not> resume \<longrightarrow> set C \<union> set F = JStr ` set paths) \<and>
           n = length C \<and> m = length F \<and>
           load_progress progress_file (sys fr) = Inr (JArr C, JArr F)"
proof -
  let ?rem = "filter (\<lambda>p. JStr p \<notin> set pc \<and> JStr p \<notin> set pf) paths"
  have fresh: "set pc \<union> set pf = {}" if "\<not> resume"
    using that assms(1) by (simp add: prior_progress_def)
  have pool: "0 < pool_size e max_workers"
  proof (rule ccontr)
    assume "\<not> 0 < pool_size e max_workers"
    then have "fst (loop_entry e paths max_workers resume progress_file w) \<noteq> None"
      by (intro loop_entry_bad_pool) simp
    with assms(2) show False
      by (auto simp: process_pdfs_enterprise_run_def split: prod.splits option.splits)
  qed
  obtain fr2 where le: "loop_entry e paths max_workers resume progress_file w = (None, fr2)"
    and c2: "completed_files fr2 = JArr pc" and f2: "failed_files fr2 = JArr pf"
    and fut: "future_to_pdf fr2 = zip [0 ..< length ?rem] ?rem"
    using loop_entry_lists [OF assms(1) pool, of paths] by simp
  have coh: "\<forall>x \<in> set (arrivals e (future_to_pdf fr2)).
     \<forall>q s n out csv. snd x = Returned q s n out csv \<longrightarrow> q = fst x"
    by (rule coherent_arrivals)
  from drain_lists [OF c2 f2 coh, of e progress_file]
  obtain fr3 C F where d: "drain e progress_file (arrivals e (future_to_pdf fr2)) fr2 = (None, fr3)"
    and c3: "completed_files fr3 = JArr C" and f3: "failed_files fr3 = JArr F"
    and s3: "set C \<union> set F = JStr ` fst ` set (arrivals e (future_to_pdf fr2)) \<union> (set pc \<union> set pf)"
    by blast
  from assms(2) le d have fin: "finish e progress_file fr3 = (Inr (n, m), fr)"
    by (simp add: process_pdfs_enterprise_run_def)
  have "set (map fst (arrivals e (future_to_pdf fr2))) = set (map snd (future_to_pdf fr2))"
    using mset_fst_arrivals [of e "future_to_pdf fr2"] by (rule mset_eq_setD)
  then have "fst ` set (arrivals e (future_to_pdf fr2)) = set ?rem"
    by (simp add: fut map_snd_zip del: set_filter)
  with s3 have all: "set C \<union> set F = JStr ` set paths \<union> (set pc \<union> set pf)"
    by auto
  with fresh have "\<not> resume \<longrightarrow> set C \<union> set F = JStr ` set paths"
    by simp
  moreover note all
  moreover from finish_keeps [OF fin] c3 f3
  have "completed_files fr = JArr C" "failed_files fr = JArr F" by simp_all
  moreover note finish_lists [OF c3 f3 fin]
  ultimately show ?thesis by blast
qed

theorem terminal_ids_cover_input_witness:
  "prior_progress False ''processing_progress.json'' world_empty = Inr (JArr [], JArr []) \<and>
   process_pdfs_enterprise_run env_second_fails [''a.pdf'', ''b.pdf''] None False
       ''processing_progress.json'' world_empty
     = (Inr (1, 1),
        snd (process_pdfs_enterprise_run env_second_fails [''a.pdf'', ''b.pdf''] None False
               ''processing_progress.json'' world_empty)) \<and>
   set (list_of (completed_files
         (snd (process_pdfs_enterprise_run env_second_fails [''a.pdf'', ''b.pdf''] None False
                 ''processing_progress.json'' world_empty)))) \<union>
   set (list_of (failed_files
         (snd (process_pdfs_enterprise_run env_second_fails [''a.pdf'', ''b.pdf''] None False
                 ''processing_progress.json'' world_empty))))
     = JStr ` set [''a.pdf'', ''b.pdf'']"
proof -
  let ?run = "process_pdfs_enterprise_run env_second_fails [''a.pdf'', ''b.pdf''] None False
                   ''processing_progress.json'' world_empty"
  have p: "prior_progress False ''processing_progress.json'' world_empty = Inr (JArr [], JArr [])"
    by (simp add: prior_progress_def)
  have ret: "fst ?run = Inr (1, 1)"
    by (simp add: run_eval env_second_fails_def env_ok_def world_empty_def)
  have "?run = (fst ?run, snd ?run)" by (rule surjective_pairing)
  with ret have run: "?run = (Inr (1, 1), snd ?run)" by (simp only:)
  from terminal_ids_cover_input [OF p run]
  obtain C F where c: "completed_files (snd ?run) = JArr C" and f: "failed_files (snd ?run) = JArr F"
    and s: "set C \<union> set F = JStr ` set [''a.pdf'', ''b.pdf''] \<union> (set [] \<union> set [])"
    by blast
  from s have "set (list_of (completed_files (snd ?run))) \<union> set (list_of (failed_files (snd ?run)))
     = JStr ` set [''a.pdf'', ''b.pdf'']"
    by (simp only: c f list_of.simps) simp
  with p run show ?thesis by (simp only: simp_thms)
qed

text \<open>
  C1 (as stated) fails: resuming from a checkpoint that lists \<^verbatim>\<open>x.pdf\<close> with the input
  \<^verbatim>\<open>a.pdf\<close> returns with both ids in \<^verbatim>\<open>completed_files\<close>, which is not the set of the
  submitted ids.
\<close>

theorem terminal_ids_stale_checkpoint_counterexample:
  "process_pdfs_enterprise env_ok [''a.pdf''] None True ''processing_progress.json''
     (world_with ''processing_progress.json''
        (JsonDoc (progress_json (JArr [JStr ''x.pdf'']) (JArr []) 0)))
     = Inr (2, 0) \<and>
   completed_files
     (snd (process_pdfs_enterprise_run env_ok [''a.pdf''] None True ''processing_progress.json''
             (world_with ''processing_progress.json''
                (JsonDoc (progress_json (JArr [JStr ''x.pdf'']) (JArr []) 0)))))
     = JArr [JStr ''x.pdf'', JStr ''a.pdf''] \<and>
   failed_files
     (snd (process_pdfs_enterprise_run env_ok [''a.pdf''] None True ''processing_progress.json''
             (world_with ''processing_progress.json''
                (JsonDoc (progress_json (JArr [JStr ''x.pdf'']) (JArr []) 0)))))
     = JArr [] \<and>
   set [JStr ''x.pdf'', JStr ''a.pdf''] \<union> set [] \<noteq> JStr ` set [''a.pdf'']"
  by (simp add: process_pdfs_enterprise_def run_eval env_ok_def world_with_def)

subsection \<open>C2\<close>

text \<open>
  C2. A run with \<^verbatim>\<open>resume\<close> set starts from the collections \<^verbatim>\<open>load_progress\<close> returns,
  and every path it submits to the pool is a path of the input for which both
  \<^verbatim>\<open>in completed_files\<close> and \<^verbatim>\<open>in failed_files\<close> are false. When the checkpoint holds two
  lists and the pool size is valid, the submitted paths are exactly the input paths
  that occur in neither list, in input order.
\<close>

theorem resume_skips_terminal_ids:
  assumes "load_progress progress_file w = Inr (completed, failed)"
  shows "(\<forall>x \<in> set (future_to_pdf
                      (snd (process_pdfs_enterprise_run e paths max_workers True progress_file w))).
            snd x \<in> set paths \<and> py_contains (snd x) completed = Inr False \<and>
            py_contains (snd x) failed = Inr False) \<and>
         (\<forall>pc pf. completed = JArr pc \<and> failed = JArr pf \<and> 0 < pool_size e max_workers \<longrightarrow>
            map snd (future_to_pdf
                      (snd (process_pdfs_enterprise_run e paths max_workers True progress_file w)))
            = filter (\<lambda>p. JStr p \<notin> set pc \<and> JStr p \<notin> set pf) paths)"
proof -
  obtain eo fr2 where le: "loop_entry e paths max_workers True progress_file w = (eo, fr2)"
    by (cases "loop_entry e paths max_workers True progress_file w")
  obtain res fr where run: "process_pdfs_enterprise_run e paths max_workers True progress_file w = (res, fr)"
    by (cases "process_pdfs_enterprise_run e paths max_workers True progress_file w")
  from run_keeps [OF le run] have same: "future_to_pdf fr = future_to_pdf fr2" by simp
  have first: "\<forall>x \<in> set (future_to_pdf fr).
            snd x \<in> set paths \<and> py_contains (snd x) completed = Inr False \<and>
            py_contains (snd x) failed = Inr False"
    using loop_entry_resume [OF assms le] same by simp
  have second: "map snd (future_to_pdf fr) = filter (\<lambda>p. JStr p \<notin> set pc \<and> JStr p \<notin> set pf) paths"
    if "completed = JArr pc" "failed = JArr pf" "0 < pool_size e max_workers" for pc pf
  proof -
    from assms that have "prior_progress True progress_file w = Inr (JArr pc, JArr pf)"
      by (simp add: prior_progress_def)
    from loop_entry_lists [OF this that(3), of paths] le same show ?thesis
      by (simp add: map_snd_zip)
  qed
  from first second run show ?thesis by simp
qed

theorem resume_skips_terminal_ids_witness:
  "load_progress ''processing_progress.json''
     (world_with ''processing_progress.json''
        (JsonDoc (progress_json (JArr [JStr ''a.pdf'']) (JArr [JStr ''b.pdf'']) 0)))
     = Inr (JArr [JStr ''a.pdf''], JArr [JStr ''b.pdf'']) \<and>
   map snd (future_to_pdf
     (snd (process_pdfs_enterprise_run env_ok [''a.pdf'', ''b.pdf'', ''c.pdf''] None True
             ''processing_progress.json''
             (world_with ''processing_progress.json''
                (JsonDoc (progress_json (JArr [JStr ''a.pdf'']) (JArr [JStr ''b.pdf'']) 0))))))
     = [''c.pdf'']"
proof -
  have l: "load_progress ''processing_progress.json''
     (world_with ''processing_progress.json''
        (JsonDoc (progress_json (JArr [JStr ''a.pdf'']) (JArr [JStr ''b.pdf'']) 0)))
     = Inr (JArr [JStr ''a.pdf''], JArr [JStr ''b.pdf''])"
    by (simp add: load_progress_saved world_with_def)
  have p: "0 < pool_size env_ok None"
    by (simp add: pool_size_def env_ok_def)
  from resume_skips_terminal_ids [OF l, of env_ok "[''a.pdf'', ''b.pdf'', ''c.pdf'']" None] p l
  show ?thesis by simp
qed

subsection \<open>C3\<close>

text \<open>
  C3 (as the code has it). Take an input without duplicate ids, a run that starts
  from two lists that share no id and repeat none (always so without resume), and
  writes that all complete. Then at every point of the loop the two collections
  together hold no id twice, so no id is in both; and when the function is left they
  hold, besides what the run started from, each submitted id exactly once.
\<close>

theorem each_id_recorded_once:
  assumes "prior_progress resume progress_file w = Inr (JArr pc, JArr pf)"
    and "distinct paths"
    and "distinct (pc @ pf)"
    and "\<forall>n. io_at e n = IoOk"
    and "0 < pool_size e max_workers"
  shows "(\<forall>k. \<exists>C F.
            completed_files (during_run e paths max_workers resume progress_file w k) = JArr C \<and>
            failed_files (during_run e paths max_workers resume progress_file w k) = JArr F \<and>
            distinct (C @ F)) \<and>
         (\<exists>C F.
            completed_files (snd (process_pdfs_enterprise_run e paths max_workers resume progress_file w))
              = JArr C \<and>
            failed_files (snd (process_pdfs_enterprise_run e paths max_workers resume progress_file w))
              = JArr F \<and>
            distinct (C @ F) \<and>
            mset (C @ F) =
              mset (pc @ pf) +
              mset (map JStr (filter (\<lambda>p. JStr p \<notin> set pc \<and> JStr p \<notin> set pf) paths)))"
proof -
  let ?rem = "filter (\<lambda>p. JStr p \<notin> set pc \<and> JStr p \<notin> set pf) paths"
  have step: "\<exists>(xs :: (string \<times> future_result) list) C F. mset (map fst xs) = mset ?rem \<and>
            completed_files (during_run e paths max_workers resume progress_file w k) = JArr C \<and>
            failed_files (during_run e paths max_workers resume progress_file w k) = JArr F \<and>
            mset (C @ F) = mset (map (\<lambda>x. JStr (fst x)) (take k xs) @ pc @ pf) \<and>
            distinct (C @ F)" for k
  proof -
    from during_run_lists_ok [OF assms(1,4,5), of paths k]
    obtain xs :: "(string \<times> future_result) list" and C F
      where xs: "mset (map fst xs) = mset ?rem"
      and c: "completed_files (during_run e paths max_workers resume progress_file w k) = JArr C"
      and f: "failed_files (during_run e paths max_workers resume progress_file w k) = JArr F"
      and m: "mset (C @ F) = mset (map (\<lambda>x. JStr (fst x)) (take k xs) @ pc @ pf)"
      by blast
    from distinct_new_ids [OF assms(2,3) xs, of k] mset_eq_imp_distinct_iff [OF m]
    have "distinct (C @ F)" by (simp only:)
    with xs c f m show ?thesis by blast
  qed
  have during: "\<forall>k. \<exists>C F.
            completed_files (during_run e paths max_workers resume progress_file w k) = JArr C \<and>
            failed_files (during_run e paths max_workers resume progress_file w k) = JArr F \<and>
            distinct (C @ F)"
    using step by blast
  note ends = run_ends_as_loop [OF assms(1,4,5), of paths]
  from step [of "length ?rem"]
  obtain xs :: "(string \<times> future_result) list" and C F
    where xs: "mset (map fst xs) = mset ?rem"
      and c: "completed_files (during_run e paths max_workers resume progress_file w (length ?rem)) = JArr C"
      and f: "failed_files (during_run e paths max_workers resume progress_file w (length ?rem)) = JArr F"
      and m: "mset (C @ F) = mset (map (\<lambda>x. JStr (fst x)) (take (length ?rem) xs) @ pc @ pf)"
      and d: "distinct (C @ F)"
    by blast
  from xs have "size (mset (map fst xs)) = size (mset ?rem)" by (simp only:)
  then have "length xs = length ?rem" by (simp only: size_mset length_map)
  then have all: "take (length ?rem) xs = xs" by simp
  have "mset (map (\<lambda>x. JStr (fst x)) xs) = mset (map JStr (map fst xs))"
    by (simp add: comp_def)
  also have "\<dots> = image_mset JStr (mset (map fst xs))"
    by (rule mset_map)
  also have "\<dots> = image_mset JStr (mset ?rem)"
    using xs by (rule arg_cong)
  also have "\<dots> = mset (map JStr ?rem)"
    by (rule mset_map [symmetric])
  finally have "mset (map (\<lambda>x. JStr (fst x)) xs) = mset (map JStr ?rem)" .
  with m all have final: "mset (C @ F) = mset (pc @ pf) + mset (map JStr ?rem)"
    by (simp only: mset_append add.commute)
  from ends c f have "completed_files (snd (process_pdfs_enterprise_run e paths max_workers resume progress_file w)) = JArr C"
    and "failed_files (snd (process_pdfs_enterprise_run e paths max_workers resume progress_file w)) = JArr F"
    by simp_all
  with d final during show ?thesis by blast
qed

theorem each_id_recorded_once_witness:
  "prior_progress False ''processing_progress.json'' world_empty = Inr (JArr [], JArr []) \<and>
   distinct [''a.pdf'', ''b.pdf''] \<and>
   distinct ([] @ [] :: json list) \<and>
   (\<forall>n. io_at env_second_fails n = IoOk) \<and>
   0 < pool_size env_second_fails None \<and>
   distinct
     (list_of (completed_files
        (snd (process_pdfs_enterprise_run env_second_fails [''a.pdf'', ''b.pdf''] None False
                ''processing_progress.json'' world_empty))) @
      list_of (failed_files
        (snd (process_pdfs_enterprise_run env_second_fails [''a.pdf'', ''b.pdf''] None False
                ''processing_progress.json'' world_empty))))"
proof -
  let ?run = "process_pdfs_enterprise_run env_second_fails [''a.pdf'', ''b.pdf''] None False
                   ''processing_progress.json'' world_empty"
  have p: "prior_progress False ''processing_progress.json'' world_empty = Inr (JArr [], JArr [])"
    by (simp add: prior_progress_def)
  have d1: "distinct [''a.pdf'', ''b.pdf'']" by simp
  have d2: "distinct ([] @ [] :: json list)" by simp
  have io: "\<forall>n. io_at env_second_fails n = IoOk"
    by (simp add: env_second_fails_def env_ok_def)
  have pool: "0 < pool_size env_second_fails None"
    by (simp add: pool_size_def env_second_fails_def env_ok_def)
  from each_id_recorded_once [OF p d1 d2 io pool]
  obtain C F where c: "completed_files (snd ?run) = JArr C" and f: "failed_files (snd ?run) = JArr F"
    and d: "distinct (C @ F)"
    by blast
  from d have "distinct (list_of (completed_files (snd ?run)) @ list_of (failed_files (snd ?run)))"
    by (simp only: c f list_of.simps)
  with p d1 d2 io pool show ?thesis by (simp only: simp_thms)
qed

text \<open>
  C3 (as stated) fails on an input with a duplicate id: the two submissions of
  \<^verbatim>\<open>a.pdf\<close> are recorded independently, so the id ends in both collections when one
  submission succeeds and the other fails, and twice in \<^verbatim>\<open>completed_files\<close> when both
  succeed.
\<close>

theorem duplicate_ids_counterexample:
  "process_pdfs_enterprise env_second_fails [''a.pdf'', ''a.pdf''] None False
     ''processing_progress.json'' world_empty = Inr (1, 1) \<and>
   completed_files
     (snd (process_pdfs_enterprise_run env_second_fails [''a.pdf'', ''a.pdf''] None False
             ''processing_progress.json'' world_empty)) = JArr [JStr ''a.pdf''] \<and>
   failed_files
     (snd (process_pdfs_enterprise_run env_second_fails [''a.pdf'', ''a.pdf''] None False
             ''processing_progress.json'' world_empty)) = JArr [JStr ''a.pdf''] \<and>
   completed_files
     (snd (process_pdfs_enterprise_run env_ok [''a.pdf'', ''a.pdf''] None False
             ''processing_progress.json'' world_empty)) = JArr [JStr ''a.pdf'', JStr ''a.pdf'']"
  by (simp add: process_pdfs_enterprise_def run_eval env_second_fails_def env_ok_def
        world_empty_def)

subsection \<open>C4\<close>

text \<open>
  C4 (the code on the empty input). For the empty input sequence, without resume,
  the call never returns \<open>(0, 0)\<close>: it raises. With a valid pool size and a completed checkpoint write the
  exception is \<^verbatim>\<open>ZeroDivisionError\<close>, from the average time per file of the report,
  which divides by the number of processed files.
\<close>

theorem empty_input_raises:
  "process_pdfs_enterprise e [] max_workers False progress_file w =
     Inl (if pool_size e max_workers \<le> 0 then ValueError
          else if io_at e (writes w) = IoOk then ZeroDivisionError
          else OSError)"
  by (cases "io_at e (writes w)")
     (simp_all add: process_pdfs_enterprise_def process_pdfs_enterprise_run_def loop_entry_def
        initial_frame_def submit_all_def pool_size_def arrivals_def finish_def save_csv_data_def
        save_progress_def write_file_def Let_def)

theorem empty_input_raises_witness:
  "process_pdfs_enterprise env_ok [] None False ''processing_progress.json'' world_empty
     = Inl ZeroDivisionError \<and>
   files (sys (snd (process_pdfs_enterprise_run env_ok [] None False ''processing_progress.json''
                      world_empty))) default_csv_filename = None \<and>
   load_progress ''processing_progress.json''
     (sys (snd (process_pdfs_enterprise_run env_ok [] None False ''processing_progress.json''
                  world_empty))) = Inr (JArr [], JArr []) \<and>
   files (sys (snd (process_pdfs_enterprise_run env_ok [] None False ''processing_progress.json''
                      world_empty))) ''processing_progress.json''
     = Some (JsonDoc (progress_json (JArr []) (JArr []) 1))"
proof -
  have raised: "process_pdfs_enterprise env_ok [] None False ''processing_progress.json'' world_empty
     = Inl ZeroDivisionError"
    using empty_input_raises [of env_ok None "''processing_progress.json''" world_empty]
    by (simp add: pool_size_def env_ok_def)
  have disk: "files (sys (snd (process_pdfs_enterprise_run env_ok [] None False
                     ''processing_progress.json'' world_empty)))
              = [''processing_progress.json'' \<mapsto> JsonDoc (progress_json (JArr []) (JArr []) 1)]"
    by (simp add: run_eval env_ok_def world_empty_def)
  have load: "load_progress ''processing_progress.json''
     (sys (snd (process_pdfs_enterprise_run env_ok [] None False ''processing_progress.json''
                  world_empty))) = Inr (JArr [], JArr [])"
    by (rule load_progress_saved [of _ _ _ _ 1]) (simp add: disk)
  from raised load show ?thesis
    by (simp add: disk default_csv_filename_def)
qed

subsection \<open>C5\<close>

text \<open>
  C5 (as the code has it). A save writes the checkpoint file in place. When it
  completes, the file holds the new state and loading gives it back. When the open
  fails, the files are as before. When the file has been opened and the writing then
  fails, wherever the bytes that reached the file end, the previous content is gone:
  the file is left incomplete and loading it raises \<^verbatim>\<open>JSONDecodeError\<close>.
\<close>

theorem save_progress_in_place:
  "(io_at e (writes w) = IoOk \<longrightarrow>
      fst (save_progress e completed failed progress_file w) = Inr () \<and>
      files (snd (save_progress e completed failed progress_file w))
        = (files w)(progress_file \<mapsto>
             JsonDoc (progress_json completed failed (time_at e (ticks w)))) \<and>
      load_progress progress_file (snd (save_progress e completed failed progress_file w))
        = Inr (completed, failed)) \<and>
   (io_at e (writes w) = OpenFails \<longrightarrow>
      fst (save_progress e completed failed progress_file w) = Inl OSError \<and>
      files (snd (save_progress e completed failed progress_file w)) = files w) \<and>
   (io_at e (writes w) = WriteFails \<longrightarrow>
      fst (save_progress e completed failed progress_file w) = Inl OSError \<and>
      files (snd (save_progress e completed failed progress_file w))
        = (files w)(progress_file \<mapsto> Malformed) \<and>
      load_progress progress_file (snd (save_progress e completed failed progress_file w))
        = Inl JSONDecodeError) \<and>
   (io_at e (writes w) = WriteFailsInChar \<longrightarrow>
      fst (save_progress e completed failed progress_file w) = Inl OSError \<and>
      files (snd (save_progress e completed failed progress_file w))
        = (files w)(progress_file \<mapsto> Malformed) \<and>
      load_progress progress_file (snd (save_progress e completed failed progress_file w))
        = Inl JSONDecodeError)"
  by (simp add: save_progress_def Let_def write_file_def load_progress_def progress_json_def
        dict_get_def)

theorem save_progress_in_place_witness:
  "io_at env_ok (writes world_empty) = IoOk \<and>
   load_progress ''processing_progress.json''
     (snd (save_progress env_ok (JArr [JStr ''a.pdf'']) (JArr []) ''processing_progress.json''
             world_empty))
     = Inr (JArr [JStr ''a.pdf''], JArr []) \<and>
   io_at env_torn (writes world_empty) = WriteFails \<and>
   load_progress ''processing_progress.json''
     (snd (save_progress env_torn (JArr [JStr ''a.pdf'']) (JArr []) ''processing_progress.json''
             world_empty))
     = Inl JSONDecodeError \<and>
   io_at (env_ok\<lparr>io_at := (\<lambda>n. OpenFails)\<rparr>) (writes world_empty) = OpenFails \<and>
   files (snd (save_progress (env_ok\<lparr>io_at := (\<lambda>n. OpenFails)\<rparr>) (JArr [JStr ''a.pdf''])
                 (JArr []) ''processing_progress.json'' world_empty))
     = files world_empty \<and>
   io_at (env_ok\<lparr>io_at := (\<lambda>n. WriteFailsInChar)\<rparr>) (writes world_empty)
     = WriteFailsInChar \<and>
   load_progress ''processing_progress.json''
     (snd (save_progress (env_ok\<lparr>io_at := (\<lambda>n. WriteFailsInChar)\<rparr>) (JArr [JStr ''a.pdf''])
             (JArr []) ''processing_progress.json'' world_empty))
     = Inl JSONDecodeError"
proof -
  have a: "io_at env_ok (writes world_empty) = IoOk" by (simp add: env_ok_def)
  have b: "io_at env_torn (writes world_empty) = WriteFails" by (simp add: env_torn_def)
  have c: "io_at (env_ok\<lparr>io_at := (\<lambda>n. OpenFails)\<rparr>) (writes world_empty) = OpenFails" by simp
  have d: "io_at (env_ok\<lparr>io_at := (\<lambda>n. WriteFailsInChar)\<rparr>) (writes world_empty)
             = WriteFailsInChar" by simp
  show ?thesis
    using a b c d
      save_progress_in_place [of "env_ok\<lparr>io_at := (\<lambda>n. WriteFailsInChar)\<rparr>" world_empty
                                 "JArr [JStr ''a.pdf'']" "JArr []" "''processing_progress.json''"]
      save_progress_in_place [of env_ok world_empty "JArr [JStr ''a.pdf'']" "JArr []"
                                 "''processing_progress.json''"]
      save_progress_in_place [of env_torn world_empty "JArr [JStr ''a.pdf'']" "JArr []"
                                 "''processing_progress.json''"]
      save_progress_in_place [of "env_ok\<lparr>io_at := (\<lambda>n. OpenFails)\<rparr>" world_empty
                                 "JArr [JStr ''a.pdf'']" "JArr []" "''processing_progress.json''"]
    by blast
qed

text \<open>
  C5 (as stated) fails: a checkpoint with one completed id is on disk, the next save
  is interrupted after the open, and the file no longer holds the previous state.
\<close>

theorem save_progress_torn_counterexample:
  "files (world_with ''processing_progress.json''
            (JsonDoc (progress_json (JArr [JStr ''a.pdf'']) (JArr []) 0)))
     ''processing_progress.json''
     = Some (JsonDoc (progress_json (JArr [JStr ''a.pdf'']) (JArr []) 0)) \<and>
   fst (save_progress env_torn (JArr [JStr ''a.pdf'', JStr ''b.pdf'']) (JArr [])
          ''processing_progress.json''
          (world_with ''processing_progress.json''
             (JsonDoc (progress_json (JArr [JStr ''a.pdf'']) (JArr []) 0))))
     = Inl OSError \<and>
   files (snd (save_progress env_torn (JArr [JStr ''a.pdf'', JStr ''b.pdf'']) (JArr [])
                 ''processing_progress.json''
                 (world_with ''processing_progress.json''
                    (JsonDoc (progress_json (JArr [JStr ''a.pdf'']) (JArr []) 0)))))
     ''processing_progress.json''
     = Some Malformed \<and>
   load_progress ''processing_progress.json''
     (snd (save_progress env_torn (JArr [JStr ''a.pdf'', JStr ''b.pdf'']) (JArr [])
             ''processing_progress.json''
             (world_with ''processing_progress.json''
                (JsonDoc (progress_json (JArr [JStr ''a.pdf'']) (JArr []) 0)))))
     = Inl JSONDecodeError"
  by (simp add: save_progress_def write_file_def env_torn_def env_ok_def world_with_def
        load_progress_def)

subsection \<open>C6\<close>

text \<open>
  C6 (as the code has it). Take a run that starts from two lists and whose writes
  all complete, and let \<open>k\<close> futures have been handled. The two collections then hold
  \<open>k\<close> ids more than at the start. If the \<open>k\<close>-th future returned and brought the
  number of ids held, the ids the run started from included, to a multiple of 10,
  the checkpoint on disk holds the collections as they are now. When the function
  is left, the table having been written, the checkpoint on disk holds the final
  collections. If moreover none of the \<open>k\<close> futures raised, let \<open>d\<close> be the remainder
  modulo 10 of the number of ids held: if \<open>d < k\<close> the checkpoint on disk holds the
  collections as they were \<open>d\<close> outcomes ago, so at most 9 outcomes are not persisted;
  otherwise fewer than 10 futures have been handled and no checkpoint has been
  written yet.
\<close>

theorem checkpoint_cadence:
  assumes "prior_progress resume progress_file w = Inr (JArr pc, JArr pf)"
    and "\<forall>n. io_at e n = IoOk"
    and "0 < pool_size e max_workers"
    and "k \<le> length (filter (\<lambda>p. JStr p \<notin> set pc \<and> JStr p \<notin> set pf) paths)"
  shows "(\<exists>C F.
            completed_files (during_run e paths max_workers resume progress_file w k) = JArr C \<and>
            failed_files (during_run e paths max_workers resume progress_file w k) = JArr F \<and>
            length C + length F = length pc + length pf + k) \<and>
         (0 < k \<and>
          snd (outcomes e paths max_workers resume progress_file w ! (k - 1)) \<noteq> Raised \<and>
          (length pc + length pf + k) mod 10 = 0 \<longrightarrow>
            load_progress progress_file
              (sys (during_run e paths max_workers resume progress_file w k))
            = Inr (completed_files (during_run e paths max_workers resume progress_file w k),
                   failed_files (during_run e paths max_workers resume progress_file w k))) \<and>
         load_progress progress_file
           (sys (snd (process_pdfs_enterprise_run e paths max_workers resume progress_file w)))
         = Inr (completed_files
                  (snd (process_pdfs_enterprise_run e paths max_workers resume progress_file w)),
                failed_files
                  (snd (process_pdfs_enterprise_run e paths max_workers resume progress_file w))) \<and>
         ((\<forall>x \<in> set (take k (outcomes e paths max_workers resume progress_file w)).
              snd x \<noteq> Raised) \<longrightarrow>
            (if (length pc + length pf + k) mod 10 < k
             then load_progress progress_file
                    (sys (during_run e paths max_workers resume progress_file w k))
                  = Inr (completed_files
                           (during_run e paths max_workers resume progress_file w
                              (k - (length pc + length pf + k) mod 10)),
                         failed_files
                           (during_run e paths max_workers resume progress_file w
                              (k - (length pc + length pf + k) mod 10)))
             else k < 10 \<and>
                  files (sys (during_run e paths max_workers resume progress_file w k)) = files w))"
proof -
  let ?xs = "outcomes e paths max_workers resume progress_file w"
  from outcomes_lists [OF assms(1,3), of paths]
  obtain fr2 where le: "loop_entry e paths max_workers resume progress_file w = (None, fr2)"
    and c2: "completed_files fr2 = JArr pc" and f2: "failed_files fr2 = JArr pf"
    and w2: "files (sys fr2) = files w"
    and arr: "?xs = arrivals e (future_to_pdf fr2)"
    and len: "length ?xs = length (filter (\<lambda>p. JStr p \<notin> set pc \<and> JStr p \<notin> set pf) paths)"
    and D: "\<And>j. during_run e paths max_workers resume progress_file w j
                  = snd (drain e progress_file (take j ?xs) fr2)"
    by blast
  have coh: "\<forall>x \<in> set ?xs. \<forall>q s n out csv. snd x = Returned q s n out csv \<longrightarrow> q = fst x"
    unfolding arr by (rule coherent_arrivals)
  have coh_take: "\<forall>x \<in> set (take j ?xs). \<forall>q s n out csv. snd x = Returned q s n out csv \<longrightarrow> q = fst x"
    for j
    using coh by (meson in_set_takeD)
  from assms(4) len have k: "k \<le> length ?xs" by simp
  have state: "\<exists>C F. drain e progress_file (take j ?xs) fr2
                        = (None, snd (drain e progress_file (take j ?xs) fr2)) \<and>
            completed_files (snd (drain e progress_file (take j ?xs) fr2)) = JArr C \<and>
            failed_files (snd (drain e progress_file (take j ?xs) fr2)) = JArr F \<and>
            length C + length F = length pc + length pf + j"
    if "j \<le> length ?xs" for j
  proof -
    from drain_lists_ok [OF c2 f2 coh_take [of j] assms(2), of progress_file]
    obtain fr' C F where d: "drain e progress_file (take j ?xs) fr2 = (None, fr')"
      and c: "completed_files fr' = JArr C" and f: "failed_files fr' = JArr F"
      and m: "mset (C @ F) = mset (map (\<lambda>x. JStr (fst x)) (take j ?xs)) + mset (pc @ pf)"
      by blast
    from m have "size (mset (C @ F)) = size (mset (map (\<lambda>x. JStr (fst x)) (take j ?xs)) + mset (pc @ pf))"
      by (simp only:)
    with that have "length C + length F = length pc + length pf + j"
      by (simp add: min_def)
    with d c f show ?thesis by auto
  qed
  have first: "\<exists>C F.
            completed_files (during_run e paths max_workers resume progress_file w k) = JArr C \<and>
            failed_files (during_run e paths max_workers resume progress_file w k) = JArr F \<and>
            length C + length F = length pc + length pf + k"
    using state [OF k] by (simp only: D) blast
  have second: "load_progress progress_file
              (sys (during_run e paths max_workers resume progress_file w k))
            = Inr (completed_files (during_run e paths max_workers resume progress_file w k),
                   failed_files (during_run e paths max_workers resume progress_file w k))"
    if pos: "0 < k" and ret: "snd (?xs ! (k - 1)) \<noteq> Raised"
      and ten: "(length pc + length pf + k) mod 10 = 0"
  proof -
    from pos obtain j where j: "k = Suc j" by (cases k) simp_all
    with k have jlt: "j < length ?xs" by simp
    then have jle: "j \<le> length ?xs" by simp
    from state [OF jle] obtain C F
      where dj: "drain e progress_file (take j ?xs) fr2
                   = (None, snd (drain e progress_file (take j ?xs) fr2))"
        and cj: "completed_files (snd (drain e progress_file (take j ?xs) fr2)) = JArr C"
        and fj: "failed_files (snd (drain e progress_file (take j ?xs) fr2)) = JArr F"
        and lj: "length C + length F = length pc + length pf + j"
      by blast
    obtain p r where x: "?xs ! j = (p, r)" by (cases "?xs ! j")
    from jlt have "?xs ! j \<in> set ?xs" by simp
    with coh x have coh1: "\<forall>q s n out csv. r = Returned q s n out csv \<longrightarrow> q = p"
      by fastforce
    from ret j x have nr: "r \<noteq> Raised" by simp
    from assms(2) have io1: "io_at e (writes (sys (snd (drain e progress_file (take j ?xs) fr2)))) = IoOk"
      by simp
    from handle_future_lists_ok [OF cj fj coh1 io1, of progress_file] nr
    obtain fr' C' F'
      where h: "handle_future e progress_file (p, r) (snd (drain e progress_file (take j ?xs) fr2))
                  = (None, fr')"
        and c': "completed_files fr' = JArr C'" and f': "failed_files fr' = JArr F'"
        and m': "mset (C' @ F') = add_mset (JStr p) (mset (C @ F))"
        and saved: "(length C' + length F') mod 10 = 0 \<longrightarrow>
                      load_progress progress_file (sys fr') = Inr (JArr C', JArr F')"
      by blast
    from m' have "size (mset (C' @ F')) = Suc (size (mset (C @ F)))" by simp
    with lj j have "length C' + length F' = length pc + length pf + k" by simp
    with saved ten have l: "load_progress progress_file (sys fr') = Inr (JArr C', JArr F')"
      by simp
    from dj have "fst (drain e progress_file (take j ?xs) fr2) = None" by (metis fst_conv)
    from drain_take_Suc [OF this jlt] h x j
    have "snd (drain e progress_file (take k ?xs) fr2) = fr'" by simp
    with l c' f' show ?thesis by (simp only: D)
  qed
  have third: "load_progress progress_file
           (sys (snd (process_pdfs_enterprise_run e paths max_workers resume progress_file w)))
         = Inr (completed_files
                  (snd (process_pdfs_enterprise_run e paths max_workers resume progress_file w)),
                failed_files
                  (snd (process_pdfs_enterprise_run e paths max_workers resume progress_file w)))"
  proof -
    from drain_lists_ok [OF c2 f2 coh assms(2), of progress_file]
    obtain fr3 C3 F3 where d: "drain e progress_file ?xs fr2 = (None, fr3)"
      and c3: "completed_files fr3 = JArr C3" and f3: "failed_files fr3 = JArr F3"
      by blast
    from le d arr have run: "process_pdfs_enterprise_run e paths max_workers resume progress_file w
                          = finish e progress_file fr3"
      by (simp add: process_pdfs_enterprise_run_def)
    obtain res fr where fin: "finish e progress_file fr3 = (res, fr)"
      by (cases "finish e progress_file fr3")
    from finish_keeps [OF fin] c3 f3 fin
    have "completed_files (snd (finish e progress_file fr3)) = JArr C3"
      and "failed_files (snd (finish e progress_file fr3)) = JArr F3"
      by simp_all
    with finish_saves [OF c3 f3 assms(2), of progress_file] show ?thesis
      by (simp only: run)
  qed
  have fourth: "if (length pc + length pf + k) mod 10 < k
             then load_progress progress_file
                    (sys (during_run e paths max_workers resume progress_file w k))
                  = Inr (completed_files
                           (during_run e paths max_workers resume progress_file w
                              (k - (length pc + length pf + k) mod 10)),
                         failed_files
                           (during_run e paths max_workers resume progress_file w
                              (k - (length pc + length pf + k) mod 10)))
             else k < 10 \<and>
                  files (sys (during_run e paths max_workers resume progress_file w k)) = files w"
    if ret: "\<forall>x \<in> set (take k ?xs). snd x \<noteq> Raised"
  proof -
    let ?ys = "take k ?xs"
    from k have ky: "k \<le> length ?ys" by simp
    have tk: "take j ?ys = take j ?xs" if "j \<le> k" for j
      using that by (simp add: min_def)
    from drain_cadence [OF c2 f2 coh_take [of k] ret assms(2) ky, of progress_file]
    have disk: "if (length pc + length pf + k) mod 10 < k
            then load_progress progress_file (sys (snd (drain e progress_file (take k ?ys) fr2)))
                 = Inr (completed_files (snd (drain e progress_file
                          (take (k - (length pc + length pf + k) mod 10) ?ys) fr2)),
                        failed_files (snd (drain e progress_file
                          (take (k - (length pc + length pf + k) mod 10) ?ys) fr2)))
            else sys (snd (drain e progress_file (take k ?ys) fr2)) = sys fr2"
      by blast
    have t1: "take k ?ys = take k ?xs" by (rule tk) simp
    have t2: "take (k - (length pc + length pf + k) mod 10) ?ys
                = take (k - (length pc + length pf + k) mod 10) ?xs"
      by (rule tk) simp
    show ?thesis
    proof (cases "(length pc + length pf + k) mod 10 < k")
      case True
      with disk show ?thesis by (simp only: D t1 t2 if_True)
    next
      case False
      have "(length pc + length pf + k) mod 10 < 10" by simp
      with False have "k < 10" by linarith
      moreover from False disk have "sys (snd (drain e progress_file (take k ?xs) fr2)) = sys fr2"
        by (simp only: t1 if_False)
      ultimately show ?thesis using False w2 by (simp only: D if_False simp_thms)
    qed
  qed
  have s2: "0 < k \<and> snd (?xs ! (k - 1)) \<noteq> Raised \<and> (length pc + length pf + k) mod 10 = 0 \<longrightarrow>
            load_progress progress_file
              (sys (during_run e paths max_workers resume progress_file w k))
            = Inr (completed_files (during_run e paths max_workers resume progress_file w k),
                   failed_files (during_run e paths max_workers resume progress_file w k))"
  proof (intro impI)
    assume "0 < k \<and> snd (?xs ! (k - 1)) \<noteq> Raised \<and> (length pc + length pf + k) mod 10 = 0"
    then show "load_progress progress_file
              (sys (during_run e paths max_workers resume progress_file w k))
            = Inr (completed_files (during_run e paths max_workers resume progress_file w k),
                   failed_files (during_run e paths max_workers resume progress_file w k))"
      by (intro second) simp_all
  qed
  have s4: "(\<forall>x \<in> set (take k ?xs). snd x \<noteq> Raised) \<longrightarrow>
            (if (length pc + length pf + k) mod 10 < k
             then load_progress progress_file
                    (sys (during_run e paths max_workers resume progress_file w k))
                  = Inr (completed_files
                           (during_run e paths max_workers resume progress_file w
                              (k - (length pc + length pf + k) mod 10)),
                         failed_files
                           (during_run e paths max_workers resume progress_file w
                              (k - (length pc + length pf + k) mod 10)))
             else k < 10 \<and>
                  files (sys (during_run e paths max_workers resume progress_file w k)) = files w)"
    using fourth by (rule impI)
  show ?thesis
    by (rule conjI [OF first conjI [OF s2 conjI [OF third s4]]])
qed

theorem checkpoint_cadence_witness:
  "prior_progress False ''processing_progress.json'' world_empty = Inr (JArr [], JArr []) \<and>
   (\<forall>n. io_at env_ok n = IoOk) \<and>
   0 < pool_size env_ok None \<and>
   10 \<le> length (filter (\<lambda>p. JStr p \<notin> set [] \<and> JStr p \<notin> set []) ten_paths) \<and>
   snd (outcomes env_ok ten_paths None False ''processing_progress.json'' world_empty ! (10 - 1))
     \<noteq> Raised \<and>
   snd (outcomes env_ok ten_paths None False ''processing_progress.json'' world_empty ! 0)
     \<noteq> Raised \<and>
   load_progress ''processing_progress.json''
     (sys (during_run env_ok ten_paths None False ''processing_progress.json'' world_empty 10))
   = Inr (completed_files
            (during_run env_ok ten_paths None False ''processing_progress.json'' world_empty 10),
          failed_files
            (during_run env_ok ten_paths None False ''processing_progress.json'' world_empty 10)) \<and>
   files (sys (during_run env_ok ten_paths None False ''processing_progress.json'' world_empty 3))
   = files world_empty"
proof -
  let ?xs = "outcomes env_ok ten_paths None False ''processing_progress.json'' world_empty"
  have p: "prior_progress False ''processing_progress.json'' world_empty = Inr (JArr [], JArr [])"
    by (simp add: prior_progress_def)
  have io: "\<forall>n. io_at env_ok n = IoOk" by (simp add: env_ok_def)
  have pool: "0 < pool_size env_ok None" by (simp add: pool_size_def env_ok_def)
  have k: "10 \<le> length (filter (\<lambda>p. JStr p \<notin> set [] \<and> JStr p \<notin> set []) ten_paths)"
    by (simp add: ten_paths_def)
  then have k3: "3 \<le> length (filter (\<lambda>p. JStr p \<notin> set [] \<and> JStr p \<notin> set []) ten_paths)"
    by simp
  have all: "\<forall>x \<in> set ?xs. snd x \<noteq> Raised"
    by (simp add: outcomes_eval env_ok_def world_empty_def ten_paths_def)
  have len: "length ?xs = 10"
    by (simp add: outcomes_eval env_ok_def world_empty_def ten_paths_def)
  from all len have last: "snd (?xs ! (10 - 1)) \<noteq> Raised" by simp
  from all have ten_ok: "\<forall>x \<in> set (take 10 ?xs). snd x \<noteq> Raised"
    by (meson in_set_takeD)
  from all have three_ok: "\<forall>x \<in> set (take 3 ?xs). snd x \<noteq> Raised"
    by (meson in_set_takeD)
  from checkpoint_cadence [OF p io pool k] last
  have ten: "load_progress ''processing_progress.json''
     (sys (during_run env_ok ten_paths None False ''processing_progress.json'' world_empty 10))
   = Inr (completed_files
            (during_run env_ok ten_paths None False ''processing_progress.json'' world_empty 10),
          failed_files
            (during_run env_ok ten_paths None False ''processing_progress.json'' world_empty 10))"
    by simp
  from checkpoint_cadence [OF p io pool k3] three_ok
  have three: "files (sys (during_run env_ok ten_paths None False ''processing_progress.json''
                             world_empty 3)) = files world_empty"
    by simp
  from all len have head: "snd (?xs ! 0) \<noteq> Raised" by simp
  from p io pool k last head ten three show ?thesis by (simp only: simp_thms)
qed

text \<open>
  C6 (as stated) fails in three ways. Resumed from a checkpoint with five ids, the
  run has handled ten futures and holds fifteen ids, but the checkpoint on disk is
  the one written five outcomes ago: the test counts the ids carried over as well, so
  nothing is written after the tenth outcome of this run. In a run without resume
  whose tenth future raises, ten futures have been handled and no checkpoint has
  been written at all: the \<^verbatim>\<open>except\<close> branch does not reach the test. And in a run
  whose table cannot be opened for writing, the exception leaves the function before
  the final save: the pool has drained and there is no checkpoint.
\<close>

theorem checkpoint_cadence_counterexample:
  "completed_files
     (during_run env_ok ten_paths None True ''processing_progress.json''
        (world_with ''processing_progress.json''
           (JsonDoc (progress_json (JArr five_done) (JArr []) 0))) 10)
     = JArr (five_done @ map JStr ten_paths) \<and>
   load_progress ''processing_progress.json''
     (sys (during_run env_ok ten_paths None True ''processing_progress.json''
             (world_with ''processing_progress.json''
                (JsonDoc (progress_json (JArr five_done) (JArr []) 0))) 10))
     = Inr (JArr (five_done @ map JStr (take 5 ten_paths)), JArr []) \<and>
   five_done @ map JStr (take 5 ten_paths) \<noteq> five_done @ map JStr ten_paths \<and>
   completed_files
     (during_run env_tenth_raises ten_paths None False ''processing_progress.json'' world_empty 10)
     = JArr (map JStr (take 9 ten_paths)) \<and>
   failed_files
     (during_run env_tenth_raises ten_paths None False ''processing_progress.json'' world_empty 10)
     = JArr [JStr ''p9.pdf''] \<and>
   files (sys (during_run env_tenth_raises ten_paths None False ''processing_progress.json''
                 world_empty 10))
     ''processing_progress.json'' = None \<and>
   process_pdfs_enterprise_run env_first_open_fails [''a.pdf''] None False
       ''processing_progress.json'' world_empty
     = (Inl OSError,
        snd (process_pdfs_enterprise_run env_first_open_fails [''a.pdf''] None False
               ''processing_progress.json'' world_empty)) \<and>
   completed_files
     (snd (process_pdfs_enterprise_run env_first_open_fails [''a.pdf''] None False
             ''processing_progress.json'' world_empty)) = JArr [JStr ''a.pdf''] \<and>
   files (sys (snd (process_pdfs_enterprise_run env_first_open_fails [''a.pdf''] None False
                      ''processing_progress.json'' world_empty)))
     ''processing_progress.json'' = None"
proof -
  have resumed: "completed_files
     (during_run env_ok ten_paths None True ''processing_progress.json''
        (world_with ''processing_progress.json''
           (JsonDoc (progress_json (JArr five_done) (JArr []) 0))) 10)
     = JArr (five_done @ map JStr ten_paths) \<and>
   load_progress ''processing_progress.json''
     (sys (during_run env_ok ten_paths None True ''processing_progress.json''
             (world_with ''processing_progress.json''
                (JsonDoc (progress_json (JArr five_done) (JArr []) 0))) 10))
     = Inr (JArr (five_done @ map JStr (take 5 ten_paths)), JArr []) \<and>
   five_done @ map JStr (take 5 ten_paths) \<noteq> five_done @ map JStr ten_paths"
    by (simp add: during_eval env_ok_def world_with_def ten_paths_def five_done_def)
  have raised: "completed_files
     (during_run env_tenth_raises ten_paths None False ''processing_progress.json'' world_empty 10)
     = JArr (map JStr (take 9 ten_paths)) \<and>
   failed_files
     (during_run env_tenth_raises ten_paths None False ''processing_progress.json'' world_empty 10)
     = JArr [JStr ''p9.pdf''] \<and>
   files (sys (during_run env_tenth_raises ten_paths None False ''processing_progress.json''
                 world_empty 10))
     ''processing_progress.json'' = None"
    by (simp add: during_eval env_ok_def env_tenth_raises_def world_empty_def ten_paths_def)
  have res: "fst (process_pdfs_enterprise_run env_first_open_fails [''a.pdf''] None False
                    ''processing_progress.json'' world_empty) = Inl OSError"
    by (simp add: run_eval env_first_open_fails_def env_ok_def world_empty_def)
  have table: "completed_files
     (snd (process_pdfs_enterprise_run env_first_open_fails [''a.pdf''] None False
             ''processing_progress.json'' world_empty)) = JArr [JStr ''a.pdf''] \<and>
   files (sys (snd (process_pdfs_enterprise_run env_first_open_fails [''a.pdf''] None False
                      ''processing_progress.json'' world_empty)))
     ''processing_progress.json'' = None"
    by (simp add: run_eval env_first_open_fails_def env_ok_def world_empty_def)
  from res have "process_pdfs_enterprise_run env_first_open_fails [''a.pdf''] None False
       ''processing_progress.json'' world_empty
     = (Inl OSError,
        snd (process_pdfs_enterprise_run env_first_open_fails [''a.pdf''] None False
               ''processing_progress.json'' world_empty))"
    by (simp add: prod_eq_iff)
  with resumed raised table show ?thesis by (simp only: simp_thms)
qed

subsection \<open>C7\<close>

text \<open>
  C7 (as the code has it). Loading from a path with no file gives the empty progress
  state and no error. Loading a content that is not UTF-8 text raises
  \<^verbatim>\<open>UnicodeDecodeError\<close>, a text that is not a JSON document (a table among them) raises
  \<^verbatim>\<open>JSONDecodeError\<close>, and a JSON document that is not an object raises
  \<^verbatim>\<open>AttributeError\<close>. Every JSON object is accepted: the result is what it holds under
  \<^verbatim>\<open>completed\<close> and under \<^verbatim>\<open>failed\<close>, whatever that is, with the empty list for a key it
  does not have; nothing is validated.
\<close>

theorem load_progress_by_content:
  "(files w progress_file = None \<longrightarrow>
      load_progress progress_file w = Inr (JArr [], JArr [])) \<and>
   (files w progress_file = Some Undecodable \<longrightarrow>
      load_progress progress_file w = Inl UnicodeDecodeError) \<and>
   (files w progress_file = Some Malformed \<longrightarrow>
      load_progress progress_file w = Inl JSONDecodeError) \<and>
   (files w progress_file = Some (CsvDoc rows) \<longrightarrow>
      load_progress progress_file w = Inl JSONDecodeError) \<and>
   (files w progress_file = Some (JsonDoc j) \<and> (\<forall>kvs. j \<noteq> JObj kvs) \<longrightarrow>
      load_progress progress_file w = Inl AttributeError) \<and>
   (files w progress_file = Some (JsonDoc (JObj kvs)) \<longrightarrow>
      load_progress progress_file w
        = Inr (dict_get kvs ''completed'' (JArr []), dict_get kvs ''failed'' (JArr [])) \<and>
      (''completed'' \<notin> fst ` set kvs \<longrightarrow> dict_get kvs ''completed'' (JArr []) = JArr []) \<and>
      (''failed'' \<notin> fst ` set kvs \<longrightarrow> dict_get kvs ''failed'' (JArr []) = JArr []) \<and>
      (distinct (map fst kvs) \<longrightarrow>
         (\<forall>v. (''completed'', v) \<in> set kvs \<longrightarrow> dict_get kvs ''completed'' (JArr []) = v) \<and>
         (\<forall>v. (''failed'', v) \<in> set kvs \<longrightarrow> dict_get kvs ''failed'' (JArr []) = v)))"
proof -
  have absent: "dict_get kvs key (JArr []) = JArr []" if "key \<notin> fst ` set kvs" for key
  proof -
    from that have "map_of (rev kvs) key = None"
      by (simp add: map_of_eq_None_iff)
    then show ?thesis by (simp add: dict_get_def)
  qed
  have present: "dict_get kvs key (JArr []) = v"
    if "distinct (map fst kvs)" and "(key, v) \<in> set kvs" for key v
  proof -
    from that have "map_of (rev kvs) key = Some v"
      by (intro map_of_is_SomeI) (simp_all add: rev_map [symmetric])
    then show ?thesis by (simp add: dict_get_def)
  qed
  have other: "load_progress progress_file w = Inl AttributeError"
    if "files w progress_file = Some (JsonDoc j)" and "\<forall>kvs. j \<noteq> JObj kvs"
    using that by (cases j) (simp_all add: load_progress_def)
  from absent present other show ?thesis
    by (simp add: load_progress_def)
qed

theorem load_progress_by_content_witness:
  "load_progress ''processing_progress.json'' world_empty = Inr (JArr [], JArr []) \<and>
   load_progress ''processing_progress.json'' (world_with ''processing_progress.json'' Undecodable)
     = Inl UnicodeDecodeError \<and>
   load_progress ''processing_progress.json'' (world_with ''processing_progress.json'' Malformed)
     = Inl JSONDecodeError \<and>
   load_progress ''processing_progress.json''
       (world_with ''processing_progress.json'' (CsvDoc [row_of (one_page ''a.pdf'')]))
     = Inl JSONDecodeError \<and>
   load_progress ''processing_progress.json''
       (world_with ''processing_progress.json'' (JsonDoc (JArr [])))
     = Inl AttributeError \<and>
   load_progress ''processing_progress.json''
       (world_with ''processing_progress.json''
          (JsonDoc (JObj [(''completed'', JArr [JStr ''a.pdf''])])))
     = Inr (JArr [JStr ''a.pdf''], JArr [])"
proof -
  let ?p = "''processing_progress.json''"
  have none: "files world_empty ?p = None"
    by (simp add: world_empty_def)
  have at: "files (world_with ?p c) ?p = Some c" for c
    by (simp add: world_with_def)
  have obj: "''failed'' \<notin> fst ` set [(''completed'', JArr [JStr ''a.pdf''])]"
    and dist: "distinct (map fst [(''completed'', JArr [JStr ''a.pdf''])])"
    and mem: "(''completed'', JArr [JStr ''a.pdf'']) \<in> set [(''completed'', JArr [JStr ''a.pdf''])]"
    by simp_all
  have list: "\<forall>kvs. JArr [] \<noteq> JObj kvs" by simp
  from load_progress_by_content [of world_empty ?p "[]" JNull "[]"] none
  have 1: "load_progress ?p world_empty = Inr (JArr [], JArr [])" by blast
  from load_progress_by_content [of "world_with ?p Undecodable" ?p "[]" JNull "[]"] at
  have 2: "load_progress ?p (world_with ?p Undecodable) = Inl UnicodeDecodeError" by blast
  from load_progress_by_content [of "world_with ?p Malformed" ?p "[]" JNull "[]"] at
  have 3: "load_progress ?p (world_with ?p Malformed) = Inl JSONDecodeError" by blast
  from load_progress_by_content
         [of "world_with ?p (CsvDoc [row_of (one_page ''a.pdf'')])" ?p
             "[row_of (one_page ''a.pdf'')]" JNull "[]"] at
  have 4: "load_progress ?p (world_with ?p (CsvDoc [row_of (one_page ''a.pdf'')]))
             = Inl JSONDecodeError" by blast
  from load_progress_by_content [of "world_with ?p (JsonDoc (JArr []))" ?p "[]" "JArr []" "[]"]
       at list
  have 5: "load_progress ?p (world_with ?p (JsonDoc (JArr []))) = Inl AttributeError" by blast
  from load_progress_by_content
         [of "world_with ?p (JsonDoc (JObj [(''completed'', JArr [JStr ''a.pdf''])]))" ?p "[]" JNull
             "[(''completed'', JArr [JStr ''a.pdf''])]"] at obj dist mem
  have 6: "load_progress ?p
             (world_with ?p (JsonDoc (JObj [(''completed'', JArr [JStr ''a.pdf''])])))
           = Inr (JArr [JStr ''a.pdf''], JArr [])"
    by (metis (no_types, lifting))
  from 1 2 3 4 5 6 show ?thesis by (simp only: simp_thms)
qed

text \<open>
  C7 (as stated) fails: a checkpoint file that holds the JSON object with \<^verbatim>\<open>null\<close> under
  \<^verbatim>\<open>completed\<close> and nothing under \<^verbatim>\<open>failed\<close> is malformed as a progress state, and
  loading it raises nothing: it returns \<^verbatim>\<open>None\<close> as the completed collection and the
  empty list as the failed one.
\<close>

theorem load_progress_unvalidated_counterexample:
  "load_progress ''processing_progress.json''
     (world_with ''processing_progress.json'' (JsonDoc (JObj [(''completed'', JNull)])))
     = Inr (JNull, JArr [])"
  by (simp add: load_progress_def dict_get_def world_with_def)

subsection \<open>C8\<close>

text \<open>
  C8. Serialising no records does nothing: no file is opened and the world is
  unchanged. Serialising a non-empty sequence, when the write completes, leaves a
  table whose lines are the header \<open>fieldnames\<close> and then exactly one row per record, in
  order, each row holding the six declared fields in the declared order.
\<close>

theorem save_csv_data_rows:
  "(records = [] \<longrightarrow> save_csv_data e records csv_filename w = (Inr (), w)) \<and>
   (records \<noteq> [] \<and> io_at e (writes w) = IoOk \<longrightarrow>
      fst (save_csv_data e records csv_filename w) = Inr () \<and>
      files (snd (save_csv_data e records csv_filename w)) csv_filename
        = Some (CsvDoc (map row_of records)) \<and>
      table_lines (CsvDoc (map row_of records)) = map CStr fieldnames # map row_of records \<and>
      length (map row_of records) = length records \<and>
      (\<forall>r \<in> set records.
         length (row_of r) = length fieldnames \<and>
         row_of r = [CStr (filename r), CStr (case_number r), CStr (name r), CStr (address r),
                     CStr (source_file r), CInt (page_number r)]))"
  by (simp add: save_csv_data_def write_file_def row_of_def fieldnames_def)

theorem save_csv_data_rows_witness:
  "save_csv_data env_ok [] default_csv_filename world_empty = (Inr (), world_empty) \<and>
   [one_page ''a.pdf'', one_page ''b.pdf''] \<noteq> [] \<and> io_at env_ok (writes world_empty) = IoOk \<and>
   files (snd (save_csv_data env_ok [one_page ''a.pdf'', one_page ''b.pdf''] default_csv_filename
                 world_empty)) default_csv_filename
     = Some (CsvDoc [row_of (one_page ''a.pdf''), row_of (one_page ''b.pdf'')])"
  using save_csv_data_rows [of "[]" env_ok default_csv_filename world_empty]
        save_csv_data_rows [of "[one_page ''a.pdf'', one_page ''b.pdf'']" env_ok
                               default_csv_filename world_empty]
  by (simp add: env_ok_def)

subsection \<open>C9\<close>

text \<open>
  C9. Saving the same two collections twice, from any two worlds and at any two
  times, persists the same content once the timestamp item is left out; when the
  clock shows the same time at both saves the persisted contents are equal.
\<close>

theorem save_progress_idempotent:
  assumes "fst (save_progress e1 completed failed progress_file w1) = Inr ()"
    and "fst (save_progress e2 completed failed progress_file w2) = Inr ()"
  shows "map_option without_timestamp
           (files (snd (save_progress e1 completed failed progress_file w1)) progress_file)
         = map_option without_timestamp
           (files (snd (save_progress e2 completed failed progress_file w2)) progress_file) \<and>
         (time_at e1 (ticks w1) = time_at e2 (ticks w2) \<longrightarrow>
           files (snd (save_progress e1 completed failed progress_file w1)) progress_file
           = files (snd (save_progress e2 completed failed progress_file w2)) progress_file)"
proof -
  from assms have ok: "io_at e1 (writes w1) = IoOk" "io_at e2 (writes w2) = IoOk"
    by (simp_all add: save_progress_ok_iff)
  show ?thesis
    by (simp add: save_progress_ok [OF ok(1)] save_progress_ok [OF ok(2)]
          without_timestamp_def progress_json_def)
qed

theorem save_progress_idempotent_witness:
  "fst (save_progress env_ok (JArr [JStr ''a.pdf'']) (JArr []) ''processing_progress.json'' world_empty)
     = Inr () \<and>
   fst (save_progress env_ok (JArr [JStr ''a.pdf'']) (JArr []) ''processing_progress.json''
          (snd (save_progress env_ok (JArr [JStr ''a.pdf'']) (JArr []) ''processing_progress.json''
                  world_empty)))
     = Inr () \<and>
   map_option without_timestamp
     (files (snd (save_progress env_ok (JArr [JStr ''a.pdf'']) (JArr []) ''processing_progress.json''
                    world_empty)) ''processing_progress.json'')
   = map_option without_timestamp
     (files (snd (save_progress env_ok (JArr [JStr ''a.pdf'']) (JArr []) ''processing_progress.json''
          (snd (save_progress env_ok (JArr [JStr ''a.pdf'']) (JArr []) ''processing_progress.json''
                  world_empty)))) ''processing_progress.json'')"
proof -
  have ok1: "fst (save_progress env_ok (JArr [JStr ''a.pdf'']) (JArr []) ''processing_progress.json''
                world_empty) = Inr ()"
    by (simp add: save_progress_ok_iff env_ok_def)
  have ok2: "fst (save_progress env_ok (JArr [JStr ''a.pdf'']) (JArr []) ''processing_progress.json''
          (snd (save_progress env_ok (JArr [JStr ''a.pdf'']) (JArr []) ''processing_progress.json''
                  world_empty))) = Inr ()"
    by (simp add: save_progress_ok_iff env_ok_def)
  from save_progress_idempotent [OF ok1 ok2] ok1 ok2 show ?thesis by blast
qed

subsection \<open>C10\<close>

text \<open>
  C10. In a run with \<^verbatim>\<open>resume\<close> set, every record accumulated in \<^verbatim>\<open>all_csv_data\<close> was
  returned, with \<^verbatim>\<open>success\<close> set, by a future submitted in this run, and the path of that
  future is in neither collection of the prior checkpoint: the items skipped on
  resume contribute no record. When the run returns (and the checkpoint is not kept
  under the name of the table), the table on disk holds exactly the rows of these
  records, or is the file that was there before when there is no record.
\<close>

theorem resumed_output_only_new_records:
  assumes "load_progress progress_file w = Inr (completed, failed)"
    and "process_pdfs_enterprise_run e paths max_workers True progress_file w = (res, fr)"
  shows "(\<forall>r \<in> set (all_csv_data fr).
            \<exists>x \<in> set (future_to_pdf fr).
               r \<in> set (records_of (process_pdf_worker e (fst x) (snd x))) \<and>
               py_contains (snd x) completed = Inr False \<and>
               py_contains (snd x) failed = Inr False) \<and>
         ((\<exists>nm. res = Inr nm) \<and> progress_file \<noteq> default_csv_filename \<longrightarrow>
            files (sys fr) default_csv_filename =
              (if all_csv_data fr = [] then files w default_csv_filename
               else Some (CsvDoc (map row_of (all_csv_data fr)))))"
proof -
  obtain eo fr2 where le: "loop_entry e paths max_workers True progress_file w = (eo, fr2)"
    by (cases "loop_entry e paths max_workers True progress_file w")
  note entry = loop_entry_resume [OF assms(1) le]
  note keeps = run_keeps [OF le assms(2)]
  have first: "\<exists>x \<in> set (future_to_pdf fr).
               r \<in> set (records_of (process_pdf_worker e (fst x) (snd x))) \<and>
               py_contains (snd x) completed = Inr False \<and>
               py_contains (snd x) failed = Inr False"
    if "r \<in> set (all_csv_data fr)" for r
  proof -
    from that keeps entry obtain y where y: "y \<in> set (arrivals e (future_to_pdf fr2))"
      and r: "r \<in> set (records_of (snd y))"
      by auto
    from arrivals_results [OF y] obtain i where i: "(i, fst y) \<in> set (future_to_pdf fr2)"
      and res: "snd y = process_pdf_worker e i (fst y)"
      by blast
    from i entry have "py_contains (fst y) completed = Inr False \<and> py_contains (fst y) failed = Inr False"
      by force
    with i r res keeps show ?thesis
      by (intro bexI [of _ "(i, fst y)"]) simp_all
  qed
  have second: "files (sys fr) default_csv_filename =
              (if all_csv_data fr = [] then files w default_csv_filename
               else Some (CsvDoc (map row_of (all_csv_data fr))))"
    if ret: "res = Inr nm" and ne: "progress_file \<noteq> default_csv_filename" for nm
  proof -
    from assms(2) ret le have eo: "eo = None"
      by (cases eo) (simp_all add: process_pdfs_enterprise_run_def)
    obtain eo3 fr3 where d: "drain e progress_file (arrivals e (future_to_pdf fr2)) fr2 = (eo3, fr3)"
      by (cases "drain e progress_file (arrivals e (future_to_pdf fr2)) fr2")
    from assms(2) ret le eo d have eo3: "eo3 = None"
      by (cases eo3) (simp_all add: process_pdfs_enterprise_run_def)
    from assms(2) ret le eo d eo3 have fin: "finish e progress_file fr3 = (Inr nm, fr)"
      by (simp add: process_pdfs_enterprise_run_def)
    from drain_keeps [OF d] ne entry
    have "files (sys fr3) default_csv_filename = files w default_csv_filename"
      by simp
    with finish_returns [OF fin ne] finish_keeps [OF fin] show ?thesis by simp
  qed
  from first second show ?thesis by blast
qed

theorem resumed_output_only_new_records_witness:
  "load_progress ''processing_progress.json''
     (world_with ''processing_progress.json''
        (JsonDoc (progress_json (JArr [JStr ''a.pdf'']) (JArr []) 0)))
     = Inr (JArr [JStr ''a.pdf''], JArr []) \<and>
   fst (process_pdfs_enterprise_run env_ok [''a.pdf'', ''b.pdf''] None True
          ''processing_progress.json''
          (world_with ''processing_progress.json''
             (JsonDoc (progress_json (JArr [JStr ''a.pdf'']) (JArr []) 0)))) = Inr (2, 0) \<and>
   ''processing_progress.json'' \<noteq> default_csv_filename \<and>
   files (sys (snd (process_pdfs_enterprise_run env_ok [''a.pdf'', ''b.pdf''] None True
          ''processing_progress.json''
          (world_with ''processing_progress.json''
             (JsonDoc (progress_json (JArr [JStr ''a.pdf'']) (JArr []) 0))))))
     default_csv_filename
     = Some (CsvDoc [row_of (one_page ''b.pdf'')])"
proof -
  let ?w = "world_with ''processing_progress.json''
             (JsonDoc (progress_json (JArr [JStr ''a.pdf'']) (JArr []) 0))"
  have l: "load_progress ''processing_progress.json'' ?w = Inr (JArr [JStr ''a.pdf''], JArr [])"
    by (simp add: load_progress_saved world_with_def)
  have run: "process_pdfs_enterprise_run env_ok [''a.pdf'', ''b.pdf''] None True
               ''processing_progress.json'' ?w
             = (fst (process_pdfs_enterprise_run env_ok [''a.pdf'', ''b.pdf''] None True
                      ''processing_progress.json'' ?w),
                snd (process_pdfs_enterprise_run env_ok [''a.pdf'', ''b.pdf''] None True
                      ''processing_progress.json'' ?w))"
    by simp
  have ret: "fst (process_pdfs_enterprise_run env_ok [''a.pdf'', ''b.pdf''] None True
                      ''processing_progress.json'' ?w) = Inr (2, 0)"
    by (simp add: run_eval env_ok_def world_with_def)
  have data: "all_csv_data (snd (process_pdfs_enterprise_run env_ok [''a.pdf'', ''b.pdf''] None True
                      ''processing_progress.json'' ?w)) = [one_page ''b.pdf'']"
    by (simp add: run_eval env_ok_def world_with_def)
  have ne: "''processing_progress.json'' \<noteq> default_csv_filename"
    by (simp add: default_csv_filename_def)
  from resumed_output_only_new_records [OF l run] ret ne data l show ?thesis
    by simp
qed

end
